theory Spec2Isabelle
  imports Complex_Main "HOL-Library.Multiset" "HOL-Library.Sublist" "HOL-Library.Word"
begin

section \<open>Data model of vtquery.cpp\<close>

text \<open>
  The embedding follows \<^verbatim>\<open>src/vtquery.cpp\<close>. A C++ \<^verbatim>\<open>double\<close> is modelled by the real
  number it denotes (finite values; the only comparisons the code makes are \<open><\<close>, \<open>\<le>\<close>
  and \<open>>\<close>), \<^verbatim>\<open>std::int32_t\<close> tile coordinates by \<open>int\<close>, \<^verbatim>\<open>std::uint32_t\<close> counts by
  \<open>nat\<close> and the 64-bit feature id by a \<open>64 word\<close>.
\<close>

datatype GeomType = point | linestring | polygon | all | unknown

text \<open>The integer value of an enumerator, as \<^verbatim>\<open>getGeomTypeString(int enumVal)\<close> receives it.\<close>

fun GeomType_val :: "GeomType \<Rightarrow> nat" where
  "GeomType_val point = 0"
| "GeomType_val linestring = 1"
| "GeomType_val polygon = 2"
| "GeomType_val all = 3"
| "GeomType_val unknown = 4"

definition GeomTypeStrings :: "string list" where
  "GeomTypeStrings = [''point'', ''linestring'', ''polygon'', ''unknown'']"

text \<open>
  \<^verbatim>\<open>GeomTypeStrings[enumVal]\<close>: the array has four elements, and a read past its end is
  undefined behaviour in C++; the model returns \<open>None\<close> there.
\<close>

definition getGeomTypeString :: "nat \<Rightarrow> string option" where
  "getGeomTypeString enumVal =
     (if enumVal < length GeomTypeStrings then Some (GeomTypeStrings ! enumVal) else None)"

subsection \<open>What the tile decoder hands to the worker\<close>

text \<open>
  The decoded view of a tile as vtzero exposes it: a tile is a sequence of layers, a layer
  has a name, an extent and features, a feature has a geometry type, an optional id,
  a property list and integer geometry. \<^verbatim>\<open>vtzero::feature::id()\<close> is 0 when the feature
  has no id.
\<close>

datatype vtzero_GeomType = UNKNOWN | POINT | LINESTRING | POLYGON

datatype property_value =
    string_value string
  | float_value real
  | double_value real
  | int_value "64 word"
  | uint_value "64 word"
  | sint_value "64 word"
  | bool_value bool

type_synonym property = "string \<times> property_value"

record feature =
  geometry_type :: vtzero_GeomType
  id_field :: "64 word option"
  properties :: "property list"
  geometry :: "(int \<times> int) list list"

definition feature_has_id :: "feature \<Rightarrow> bool" where
  "feature_has_id f = (id_field f \<noteq> None)"

definition feature_id :: "feature \<Rightarrow> 64 word" where
  "feature_id f = (case id_field f of None \<Rightarrow> 0 | Some i \<Rightarrow> i)"

record layer =
  name :: string
  extent :: nat
  features :: "feature list"

text \<open>
  The bytes of a tile either decode (after gzip decompression when compressed) to its
  layers, or the decoder throws; \<open>Invalid\<close> carries the message of the exception.
\<close>

datatype tile_data = Invalid string | Tile "layer list"

record TileObject =
  tile_z :: int
  tile_x :: int
  tile_y :: int
  data :: tile_data

record QueryData =
  tiles :: "TileObject list"
  layers :: "string list"
  latitude :: real
  longitude :: real
  radius :: real
  num_results :: nat
  dedupe :: bool
  geometry_filter_type :: GeomType

subsection \<open>Result objects\<close>

datatype feature_value =
    null_value
  | bool_v bool
  | uint64_v "64 word"
  | int64_v "64 word"
  | double_v real
  | string_v string

type_synonym materialized_prop_type = "string \<times> feature_value"

record ResultObject =
  properties_vector :: "property list"
  properties_vector_materialized :: "materialized_prop_type list"
  layer_name :: string
  coordinates :: "real \<times> real"
  distance :: real
  original_geometry_type :: GeomType
  has_id :: bool
  id' :: "64 word"

text \<open>\<^verbatim>\<open>std::numeric_limits<double>::max()\<close>, the distance of a default result object.\<close>

definition DBL_MAX :: real where
  "DBL_MAX = (2 ^ 53 - 1) * 2 ^ 971"

definition ResultObject_default :: ResultObject where
  "ResultObject_default =
     \<lparr> properties_vector = [], properties_vector_materialized = [], layer_name = [],
       coordinates = (0, 0), distance = DBL_MAX, original_geometry_type = unknown,
       has_id = False, id' = 0 \<rparr>"

subsection \<open>Collaborators outside the source file\<close>

text \<open>
  \<^verbatim>\<open>utils::create_query_point\<close>, \<^verbatim>\<open>utils::convert_vt_to_ll\<close> and
  \<^verbatim>\<open>utils::distance_in_meters\<close> (util.hpp) and the closest-point kernel
  (\<^verbatim>\<open>closest_point(extract_geometry<int64_t>(feature), query_point)\<close>, mapbox libraries) are
  not part of the source file. They are parameters of the model.
\<close>

record closest_point_info =
  cp_x :: real
  cp_y :: real
  cp_distance :: real

record externals =
  create_query_point :: "real \<Rightarrow> real \<Rightarrow> nat \<Rightarrow> int \<Rightarrow> int \<Rightarrow> int \<Rightarrow> int \<times> int"
  closest_point :: "feature \<Rightarrow> int \<times> int \<Rightarrow> closest_point_info"
  convert_vt_to_ll :: "nat \<Rightarrow> int \<Rightarrow> int \<Rightarrow> int \<Rightarrow> closest_point_info \<Rightarrow> real \<times> real"
  distance_in_meters :: "real \<times> real \<Rightarrow> real \<times> real \<Rightarrow> real"

text \<open>
  Modelled from the spec: \<^verbatim>\<open>vtzero::convert_property_value\<close> with the mapbox property
  mapping is library code outside the source file. Section 4.D of the specification:
  bool to bool, sint and int to i64, uint to u64, float and double to f64, string to
  string.
\<close>

fun convert_property_value :: "property_value \<Rightarrow> feature_value" where
  "convert_property_value (string_value s) = string_v s"
| "convert_property_value (float_value r) = double_v r"
| "convert_property_value (double_value r) = double_v r"
| "convert_property_value (int_value i) = int64_v i"
| "convert_property_value (uint_value u) = uint64_v u"
| "convert_property_value (sint_value i) = int64_v i"
| "convert_property_value (bool_value b) = bool_v b"

section \<open>The functions of vtquery.cpp\<close>

definition get_geometry_type :: "feature \<Rightarrow> GeomType" where
  "get_geometry_type f =
     (case geometry_type f of
        POINT \<Rightarrow> point
      | LINESTRING \<Rightarrow> linestring
      | POLYGON \<Rightarrow> polygon
      | UNKNOWN \<Rightarrow> unknown)"

definition CompareDistance :: "ResultObject \<Rightarrow> ResultObject \<Rightarrow> bool" where
  "CompareDistance r1 r2 = (distance r1 < distance r2)"

text \<open>
  \<^verbatim>\<open>std::stable_sort(first, last, comp)\<close>: sorts by the strict weak order \<open>cmp\<close> and keeps
  the relative order of equivalent elements. Insertion from the right is such a sort.
\<close>

fun stable_insert :: "('a \<Rightarrow> 'a \<Rightarrow> bool) \<Rightarrow> 'a \<Rightarrow> 'a list \<Rightarrow> 'a list" where
  "stable_insert cmp v [] = [v]"
| "stable_insert cmp v (y # ys) =
     (if cmp y v then y # stable_insert cmp v ys else v # y # ys)"

definition stable_sort :: "('a \<Rightarrow> 'a \<Rightarrow> bool) \<Rightarrow> 'a list \<Rightarrow> 'a list" where
  "stable_sort cmp xs = foldr (stable_insert cmp) xs []"

definition insert_result ::
  "ResultObject \<Rightarrow> property list \<Rightarrow> string \<Rightarrow> real \<times> real \<Rightarrow> real \<Rightarrow> GeomType \<Rightarrow> bool
     \<Rightarrow> 64 word \<Rightarrow> ResultObject" where
  "insert_result old_result props_vec lname pt dst geom_type hasid fid =
     old_result
       \<lparr> properties_vector := props_vec, layer_name := lname, coordinates := pt,
         distance := dst, original_geometry_type := geom_type, has_id := hasid,
         id' := fid \<rparr>"

definition get_properties_vector :: "feature \<Rightarrow> property list" where
  "get_properties_vector f = properties f"

definition value_is_duplicate ::
  "ResultObject \<Rightarrow> feature \<Rightarrow> string \<Rightarrow> GeomType \<Rightarrow> property list \<Rightarrow> bool" where
  "value_is_duplicate r candidate_feature candidate_layer candidate_geom candidate_props_vec =
     (if layer_name r \<noteq> candidate_layer then False
      else if original_geometry_type r \<noteq> candidate_geom then False
      else if has_id r \<and> feature_has_id candidate_feature
                \<and> id' r \<noteq> feature_id candidate_feature then False
      else properties_vector r = candidate_props_vec)"

subsection \<open>Worker::Execute\<close>

text \<open>
  The duplicate scan \<^verbatim>\<open>for (auto& result : results_queue_)\<close>: it stops at the first
  duplicate, which it overwrites when the candidate is not farther (\<open>found_duplicate\<close>),
  and otherwise leaves alone (\<open>skip_duplicate\<close>). The result is the queue and the two flags.
\<close>

fun dedupe_loop ::
  "feature \<Rightarrow> string \<Rightarrow> GeomType \<Rightarrow> property list \<Rightarrow> real \<times> real \<Rightarrow> real
     \<Rightarrow> ResultObject list \<Rightarrow> ResultObject list \<times> bool \<times> bool" where
  "dedupe_loop f lname gt props_vec ll meters [] = ([], False, False)"
| "dedupe_loop f lname gt props_vec ll meters (result # rest) =
     (if value_is_duplicate result f lname gt props_vec then
        (if meters \<le> distance result then
           (insert_result result props_vec lname ll meters gt (feature_has_id f) (feature_id f)
              # rest, True, False)
         else (result # rest, False, True))
      else
        (case dedupe_loop f lname gt props_vec ll meters rest of
           (rest', found_duplicate, skip_duplicate) \<Rightarrow>
             (result # rest', found_duplicate, skip_duplicate)))"

text \<open>
  The body of \<^verbatim>\<open>while (auto feature = layer.next_feature())\<close>. \<^verbatim>\<open>results_queue_.back()\<close>
  is the last element; the queue is never empty when the limit is at least 1.
\<close>

definition feature_body ::
  "externals \<Rightarrow> QueryData \<Rightarrow> TileObject \<Rightarrow> layer \<Rightarrow> ResultObject list \<Rightarrow> feature
     \<Rightarrow> ResultObject list" where
  "feature_body ext qd tile_obj lyr results_queue f =
     (let lname = name lyr;
          query_lnglat = (longitude qd, latitude qd);
          query_point = create_query_point ext (longitude qd) (latitude qd) (extent lyr)
                          (tile_z tile_obj) (tile_x tile_obj) (tile_y tile_obj);
          gt = get_geometry_type f
      in
      if geometry_filter_type qd \<noteq> all \<and> geometry_filter_type qd \<noteq> gt then results_queue
      else
        let cp_info = closest_point ext f query_point in
        if cp_distance cp_info < 0 then results_queue
        else
          let ll = (if cp_distance cp_info > 0
                    then convert_vt_to_ll ext (extent lyr) (tile_z tile_obj) (tile_x tile_obj)
                           (tile_y tile_obj) cp_info
                    else (longitude qd, latitude qd));
              meters = (if cp_distance cp_info > 0
                        then distance_in_meters ext query_lnglat ll else 0)
          in
          if meters > radius qd then results_queue
          else
            let props_vec = get_properties_vector f;
                (scanned, found_duplicate, skip_duplicate) =
                  (if dedupe qd then dedupe_loop f lname gt props_vec ll meters results_queue
                   else (results_queue, False, False))
            in
            if skip_duplicate then scanned
            else if found_duplicate then stable_sort CompareDistance scanned
            else if meters < distance (last scanned) then
              stable_sort CompareDistance
                (scanned[length scanned - 1 :=
                   insert_result (last scanned) props_vec lname ll meters gt
                     (feature_has_id f) (feature_id f)])
            else scanned)"

text \<open>The body of \<^verbatim>\<open>while (auto layer = tile.next_layer())\<close>, with the layer filter.\<close>

definition layer_body ::
  "externals \<Rightarrow> QueryData \<Rightarrow> TileObject \<Rightarrow> ResultObject list \<Rightarrow> layer \<Rightarrow> ResultObject list" where
  "layer_body ext qd tile_obj results_queue lyr =
     (if layers qd \<noteq> [] \<and> name lyr \<notin> set (layers qd) then results_queue
      else foldl (feature_body ext qd tile_obj lyr) results_queue (features lyr))"

text \<open>
  The loop over the tiles. A tile whose bytes do not decode makes the decoder throw; the
  exception leaves \<^verbatim>\<open>Execute\<close> through its catch block, which records the message.
\<close>

fun tiles_loop ::
  "externals \<Rightarrow> QueryData \<Rightarrow> ResultObject list \<Rightarrow> TileObject list \<Rightarrow> string + ResultObject list" where
  "tiles_loop ext qd results_queue [] = Inr results_queue"
| "tiles_loop ext qd results_queue (tile_obj # rest) =
     (case data tile_obj of
        Invalid msg \<Rightarrow> Inl msg
      | Tile lyrs \<Rightarrow>
          tiles_loop ext qd (foldl (layer_body ext qd tile_obj) results_queue lyrs) rest)"

text \<open>The final loop of \<^verbatim>\<open>Execute\<close>: the properties of every slot are materialized.\<close>

definition materialize :: "ResultObject \<Rightarrow> ResultObject" where
  "materialize r =
     r \<lparr> properties_vector_materialized :=
           properties_vector_materialized r
             @ map (\<lambda>p. (fst p, convert_property_value (snd p))) (properties_vector r) \<rparr>"

definition Execute :: "externals \<Rightarrow> QueryData \<Rightarrow> string + ResultObject list" where
  "Execute ext qd =
     (case tiles_loop ext qd (replicate (num_results qd) ResultObject_default) (tiles qd) of
        Inl msg \<Rightarrow> Inl msg
      | Inr results_queue \<Rightarrow> Inr (map materialize results_queue))"

subsection \<open>Worker::OnOK\<close>

text \<open>
  The values set on the returned objects are JavaScript values. \<^verbatim>\<open>Napi::Number::New\<close>
  takes a double, so a 64-bit integer (a property value, or the feature id in
  \<^verbatim>\<open>feature_obj.Set("id", feature.id)\<close>) is converted to the nearest double, ties to
  even: exact below \<open>2 ^ 53\<close>, rounded to a multiple of \<open>2 ^ e\<close> for a number of
  \<open>53 + e\<close> bits.
\<close>

datatype js_value = js_boolean bool | js_number real | js_string string

definition nearest_double :: "nat \<Rightarrow> nat" where
  "nearest_double n =
     (let e = length (filter (\<lambda>k. 2 ^ (53 + k) \<le> n) [0..<11]);
          q = n div 2 ^ e;
          r = n mod 2 ^ e
      in if 2 ^ e < 2 * r \<or> (2 * r = 2 ^ e \<and> odd q) then (q + 1) * 2 ^ e else q * 2 ^ e)"

definition uint64_to_double :: "64 word \<Rightarrow> real" where
  "uint64_to_double u = real (nearest_double (unat u))"

definition int64_to_double :: "64 word \<Rightarrow> real" where
  "int64_to_double i =
     (if 0 \<le> sint i then real (nearest_double (nat (sint i)))
      else - real (nearest_double (nat (- sint i))))"

text \<open>
  A feature of the returned FeatureCollection. \<open>f_properties\<close> is the properties object
  before the \<open>tilequery\<close> key is set: a later \<open>Set\<close> of a key overwrites an earlier one, and
  a value that is neither bool, number nor string sets nothing. \<open>tq_geometry\<close> is \<open>None\<close>
  when the lookup of the geometry name reads past the array.
\<close>

record Feature =
  f_id :: real
  f_coordinates :: "real \<times> real"
  f_properties :: "string \<rightharpoonup> js_value"
  tq_distance :: real
  tq_geometry :: "string option"
  tq_layer :: string

text \<open>
  \<^verbatim>\<open>property_value_visitor\<close>: a bool becomes a Boolean, a string a String, and the three
  numeric types a Number; any other value sets nothing.
\<close>

definition set_property ::
  "materialized_prop_type \<Rightarrow> (string \<rightharpoonup> js_value) \<Rightarrow> (string \<rightharpoonup> js_value)" where
  "set_property prop properties_obj =
     (case snd prop of
        null_value \<Rightarrow> properties_obj
      | bool_v v \<Rightarrow> properties_obj(fst prop \<mapsto> js_boolean v)
      | uint64_v v \<Rightarrow> properties_obj(fst prop \<mapsto> js_number (uint64_to_double v))
      | int64_v v \<Rightarrow> properties_obj(fst prop \<mapsto> js_number (int64_to_double v))
      | double_v v \<Rightarrow> properties_obj(fst prop \<mapsto> js_number v)
      | string_v v \<Rightarrow> properties_obj(fst prop \<mapsto> js_string v))"

definition feature_obj :: "ResultObject \<Rightarrow> Feature" where
  "feature_obj r =
     \<lparr> f_id = uint64_to_double (id' r),
       f_coordinates = coordinates r,
       f_properties = foldl (\<lambda>obj prop. set_property prop obj) Map.empty
                        (properties_vector_materialized r),
       tq_distance = distance r,
       tq_geometry = getGeomTypeString (GeomType_val (original_geometry_type r)),
       tq_layer = layer_name r \<rparr>"

text \<open>
  A JavaScript array as a list with holes: \<^verbatim>\<open>features_array.Set(i, v)\<close> grows the array
  up to index \<open>i\<close> when needed.
\<close>

definition array_set :: "'a option list \<Rightarrow> nat \<Rightarrow> 'a \<Rightarrow> 'a option list" where
  "array_set arr i v =
     (if i < length arr then arr[i := Some v]
      else arr @ replicate (i - length arr) None @ [Some v])"

text \<open>
  \<^verbatim>\<open>while (!results_queue_.empty())\<close>: the back element is emitted at index
  \<open>size - 1\<close> when its distance is below the default, then popped.
\<close>

function OnOK_loop :: "ResultObject list \<Rightarrow> Feature option list \<Rightarrow> Feature option list" where
  "OnOK_loop results_queue features_array =
     (if results_queue = [] then features_array
      else
        let r = last results_queue in
        OnOK_loop (butlast results_queue)
          (if distance r < DBL_MAX
           then array_set features_array (length results_queue - 1) (feature_obj r)
           else features_array))"
  by pat_completeness auto
termination
  by (relation "measure (\<lambda>(rq, arr). length rq)") auto

definition OnOK :: "ResultObject list \<Rightarrow> Feature option list" where
  "OnOK results_queue = OnOK_loop results_queue []"

text \<open>The worker: \<^verbatim>\<open>Execute\<close>, then \<^verbatim>\<open>OnOK\<close> unless an error was set.\<close>

definition Worker :: "externals \<Rightarrow> QueryData \<Rightarrow> string + Feature option list" where
  "Worker ext qd =
     (case Execute ext qd of
        Inl msg \<Rightarrow> Inl msg
      | Inr results_queue \<Rightarrow> Inr (OnOK results_queue))"

section \<open>Auxiliary notions for the proofs\<close>

definition place :: "ResultObject \<Rightarrow> ResultObject list \<Rightarrow> ResultObject list" where
  "place c xs = takeWhile (\<lambda>r. distance r \<le> distance c) xs @ c # dropWhile (\<lambda>r. distance r \<le> distance c) xs"

definition candidate_of ::
  "externals \<Rightarrow> QueryData \<Rightarrow> TileObject \<Rightarrow> layer \<Rightarrow> feature \<Rightarrow> ResultObject option" where
  "candidate_of ext qd tile_obj lyr f =
     (let query_point = create_query_point ext (longitude qd) (latitude qd) (extent lyr)
                          (tile_z tile_obj) (tile_x tile_obj) (tile_y tile_obj);
          cp_info = closest_point ext f query_point;
          ll = (if cp_distance cp_info > 0
                then convert_vt_to_ll ext (extent lyr) (tile_z tile_obj) (tile_x tile_obj)
                       (tile_y tile_obj) cp_info
                else (longitude qd, latitude qd));
          meters = (if cp_distance cp_info > 0
                    then distance_in_meters ext (longitude qd, latitude qd) ll else 0)
      in
      if geometry_filter_type qd \<noteq> all \<and> geometry_filter_type qd \<noteq> get_geometry_type f
      then None
      else if cp_distance cp_info < 0 then None
      else if meters > radius qd then None
      else Some (insert_result ResultObject_default (get_properties_vector f) (name lyr) ll
                   meters (get_geometry_type f) (feature_has_id f) (feature_id f)))"

definition is_dup :: "ResultObject \<Rightarrow> ResultObject \<Rightarrow> bool" where
  "is_dup r c \<longleftrightarrow>
     layer_name r = layer_name c \<and> original_geometry_type r = original_geometry_type c
     \<and> \<not> (has_id r \<and> has_id c \<and> id' r \<noteq> id' c)
     \<and> properties_vector r = properties_vector c"

definition offer :: "bool \<Rightarrow> ResultObject list \<Rightarrow> ResultObject \<Rightarrow> ResultObject list" where
  "offer dd rq c =
     (case (if dd then List.extract (\<lambda>r. is_dup r c) rq else None) of
        Some (pre, e, post) \<Rightarrow>
          if distance c \<le> distance e then sort_key distance (pre @ c # post) else rq
      | None \<Rightarrow>
          if distance c < distance (last rq) then sort_key distance (butlast rq @ [c]) else rq)"

definition unmaterialized :: "ResultObject list \<Rightarrow> bool" where
  "unmaterialized rq \<longleftrightarrow> (\<forall>r\<in>set rq. properties_vector_materialized r = [])"

definition layer_candidates ::
  "externals \<Rightarrow> QueryData \<Rightarrow> TileObject \<Rightarrow> layer \<Rightarrow> ResultObject list" where
  "layer_candidates ext qd tile_obj lyr =
     (if layers qd \<noteq> [] \<and> name lyr \<notin> set (layers qd) then []
      else List.map_filter (candidate_of ext qd tile_obj lyr) (features lyr))"

definition tile_candidates :: "externals \<Rightarrow> QueryData \<Rightarrow> TileObject \<Rightarrow> ResultObject list" where
  "tile_candidates ext qd tile_obj =
     (case data tile_obj of
        Invalid msg \<Rightarrow> []
      | Tile lyrs \<Rightarrow> concat (map (layer_candidates ext qd tile_obj) lyrs))"

definition candidates :: "externals \<Rightarrow> QueryData \<Rightarrow> ResultObject list" where
  "candidates ext qd = concat (map (tile_candidates ext qd) (tiles qd))"

definition decodable :: "TileObject \<Rightarrow> bool" where
  "decodable tile_obj = (case data tile_obj of Invalid msg \<Rightarrow> False | Tile lyrs \<Rightarrow> True)"

definition live :: "ResultObject \<Rightarrow> bool" where
  "live r \<longleftrightarrow> distance r < DBL_MAX"

definition state_ok :: "ResultObject list \<Rightarrow> bool" where
  "state_ok rq \<longleftrightarrow> rq \<noteq> [] \<and> sorted (map distance rq) \<and> unmaterialized rq"

definition run :: "externals \<Rightarrow> QueryData \<Rightarrow> ResultObject list" where
  "run ext qd = foldl (offer (dedupe qd)) (replicate (num_results qd) ResultObject_default) (candidates ext qd)"

definition emitted :: "externals \<Rightarrow> QueryData \<Rightarrow> ResultObject list" where
  "emitted ext qd = map materialize (takeWhile live (run ext qd))"

subsection \<open>Example inputs\<close>

text \<open>
  A small instance of the collaborators, used to evaluate the model on concrete queries:
  the kernel measures the Manhattan distance to the first vertex of the geometry and
  reports \<open>- 1\<close> for a feature of unknown type or without vertices; tile coordinates
  and degrees coincide.
\<close>

definition ex_kernel :: "feature \<Rightarrow> int \<times> int \<Rightarrow> closest_point_info" where
  "ex_kernel f q =
     (case (geometry_type f, geometry f) of
        (UNKNOWN, g) \<Rightarrow> \<lparr> cp_x = 0, cp_y = 0, cp_distance = - 1 \<rparr>
      | (t, (p # ps) # rings) \<Rightarrow>
          \<lparr> cp_x = real_of_int (fst p), cp_y = real_of_int (snd p),
            cp_distance = real_of_int (\<bar>fst p - fst q\<bar> + \<bar>snd p - snd q\<bar>) \<rparr>
      | (t, g) \<Rightarrow> \<lparr> cp_x = 0, cp_y = 0, cp_distance = - 1 \<rparr>)"

definition ex_ext :: externals where
  "ex_ext =
     \<lparr> create_query_point = (\<lambda>lon lat e z x y. (0, 0)),
       closest_point = ex_kernel,
       convert_vt_to_ll = (\<lambda>e z x y cp. (cp_x cp, cp_y cp)),
       distance_in_meters = (\<lambda>p q. \<bar>fst p - fst q\<bar> + \<bar>snd p - snd q\<bar>) \<rparr>"

definition ex_feature :: "vtzero_GeomType \<Rightarrow> 64 word option \<Rightarrow> property list \<Rightarrow> int \<Rightarrow> feature" where
  "ex_feature t i ps px = \<lparr> geometry_type = t, id_field = i, properties = ps, geometry = [[(px, 0)]] \<rparr>"

definition ex_tile :: "feature list \<Rightarrow> TileObject" where
  "ex_tile fs = \<lparr> tile_z = 0, tile_x = 0, tile_y = 0,
                  data = Tile [\<lparr> name = ''poi'', extent = 4096, features = fs \<rparr>] \<rparr>"

definition ex_query :: "TileObject list \<Rightarrow> nat \<Rightarrow> bool \<Rightarrow> real \<Rightarrow> QueryData" where
  "ex_query ts n dd rad =
     \<lparr> tiles = ts, layers = [], latitude = 0, longitude = 0, radius = rad,
       num_results = n, dedupe = dd, geometry_filter_type = all \<rparr>"

text \<open>The result object a candidate of the example layer yields.\<close>

definition ex_result :: "GeomType \<Rightarrow> 64 word option \<Rightarrow> property list \<Rightarrow> int \<Rightarrow> ResultObject" where
  "ex_result gt i ps px =
     \<lparr> properties_vector = ps, properties_vector_materialized = [], layer_name = ''poi'',
       coordinates = (real_of_int px, 0), distance = \<bar>real_of_int px\<bar>,
       original_geometry_type = gt,
       has_id = (i \<noteq> None), id' = (case i of None \<Rightarrow> 0 | Some w \<Rightarrow> w) \<rparr>"

text \<open>
  The values the loop body computes for a feature before it looks at the queue: the
  result of the kernel, the snapped position and the distance in meters.
\<close>

definition cp_info_of ::
  "externals \<Rightarrow> QueryData \<Rightarrow> TileObject \<Rightarrow> layer \<Rightarrow> feature \<Rightarrow> closest_point_info" where
  "cp_info_of ext qd tile_obj lyr f =
     closest_point ext f
       (create_query_point ext (longitude qd) (latitude qd) (extent lyr)
          (tile_z tile_obj) (tile_x tile_obj) (tile_y tile_obj))"

definition snap_lnglat ::
  "externals \<Rightarrow> QueryData \<Rightarrow> TileObject \<Rightarrow> layer \<Rightarrow> feature \<Rightarrow> real \<times> real" where
  "snap_lnglat ext qd tile_obj lyr f =
     (if cp_distance (cp_info_of ext qd tile_obj lyr f) > 0
      then convert_vt_to_ll ext (extent lyr) (tile_z tile_obj) (tile_x tile_obj)
             (tile_y tile_obj) (cp_info_of ext qd tile_obj lyr f)
      else (longitude qd, latitude qd))"

definition meters_of ::
  "externals \<Rightarrow> QueryData \<Rightarrow> TileObject \<Rightarrow> layer \<Rightarrow> feature \<Rightarrow> real" where
  "meters_of ext qd tile_obj lyr f =
     (if cp_distance (cp_info_of ext qd tile_obj lyr f) > 0
      then distance_in_meters ext (longitude qd, latitude qd) (snap_lnglat ext qd tile_obj lyr f)
      else 0)"

text \<open>
  Modelled from the spec: the closest-point kernel (\<^verbatim>\<open>closest_point\<close> over
  \<^verbatim>\<open>extract_geometry\<close>, mapbox libraries) is not part of the source file. Section 4.B of
  the specification: for unknown or empty geometry the feature is skipped. The only
  channel from the kernel to the driver is the distance it reports, and the driver skips
  on a negative one; so a kernel that has a feature of unknown type skipped reports a
  negative distance for it.
\<close>

definition skips_unknown :: "externals \<Rightarrow> bool" where
  "skips_unknown ext \<longleftrightarrow>
     (\<forall>f q. geometry_type f = UNKNOWN \<longrightarrow> cp_distance (closest_point ext f q) < 0)"


text \<open>
  The relation of the claim about dedupe: two result objects share layer name, geometry
  type, id when both have ids, and materialized property list.
\<close>

definition shares :: "ResultObject \<Rightarrow> ResultObject \<Rightarrow> bool" where
  "shares a b \<longleftrightarrow>
     layer_name a = layer_name b \<and> original_geometry_type a = original_geometry_type b
     \<and> \<not> (has_id a \<and> has_id b \<and> id' a \<noteq> id' b)
     \<and> properties_vector_materialized a = properties_vector_materialized b"

text \<open>The duplicate relation of the code is transitive on the given result objects.\<close>

definition dup_transitive :: "ResultObject list \<Rightarrow> bool" where
  "dup_transitive cs \<longleftrightarrow>
     (\<forall>a\<in>set cs. \<forall>b\<in>set cs. \<forall>c\<in>set cs. is_dup a b \<and> is_dup b c \<longrightarrow> is_dup a c)"

text \<open>Materialization tells apart the property lists of the given result objects.\<close>

definition materialize_injective :: "ResultObject list \<Rightarrow> bool" where
  "materialize_injective cs \<longleftrightarrow>
     (\<forall>a\<in>set cs. \<forall>b\<in>set cs.
        map (\<lambda>p. (fst p, convert_property_value (snd p))) (properties_vector a)
          = map (\<lambda>p. (fst p, convert_property_value (snd p))) (properties_vector b)
        \<longrightarrow> properties_vector a = properties_vector b)"

text \<open>No live entry of the queue is a duplicate of an entry before it.\<close>

definition no_dups :: "ResultObject list \<Rightarrow> bool" where
  "no_dups rq \<longleftrightarrow> sorted_wrt (\<lambda>a b. live b \<longrightarrow> \<not> is_dup a b) rq"

text \<open>
  A candidate is dominated by the queue when offering it again cannot improve the queue:
  a duplicate at most as far is present, or no duplicate is present and the back slot is
  at most as far.
\<close>

definition dominated :: "ResultObject list \<Rightarrow> ResultObject \<Rightarrow> bool" where
  "dominated rq c \<longleftrightarrow>
     (\<exists>e\<in>set rq. is_dup e c \<and> distance e \<le> distance c)
     \<or> ((\<forall>e\<in>set rq. \<not> is_dup e c) \<and> distance (last rq) \<le> distance c)"

text \<open>The last candidate of a list that is a duplicate of an entry at the same distance.\<close>

definition last_match :: "ResultObject list \<Rightarrow> ResultObject \<Rightarrow> ResultObject" where
  "last_match cs e = last (e # filter (\<lambda>c. is_dup c e \<and> distance c = distance e) cs)"

text \<open>
  Slot by slot, a queue has the distances and duplicate classes of a base queue, and at
  the live slots of the base the last matching candidate of the list.
\<close>

definition tracks :: "ResultObject list \<Rightarrow> ResultObject list \<Rightarrow> ResultObject list \<Rightarrow> bool" where
  "tracks cs rq base \<longleftrightarrow>
     list_all2 (\<lambda>s e. distance s = distance e \<and> is_dup s e \<and> (live e \<longrightarrow> s = last_match cs e))
       rq base"

text \<open>The queue is not empty, sorted by distance, and holds only the given objects.\<close>

definition queue_inv :: "ResultObject list \<Rightarrow> ResultObject list \<Rightarrow> bool" where
  "queue_inv us rq \<longleftrightarrow> rq \<noteq> [] \<and> sorted (map distance rq) \<and> set rq \<subseteq> set us"

text \<open>Every live entry of the queue is the last candidate of the list that matches it.\<close>

definition settled :: "ResultObject list \<Rightarrow> ResultObject list \<Rightarrow> bool" where
  "settled pre rq \<longleftrightarrow> (\<forall>e\<in>set rq. live e \<longrightarrow> last_match pre e = e)"

section \<open>Basic facts\<close>

lemma stable_insert_insort:
  "stable_insert CompareDistance v ys = insort_key distance v ys"
  by (induction ys) (auto simp: CompareDistance_def)

lemma stable_sort_sort_key:
  "stable_sort CompareDistance xs = sort_key distance xs"
  by (induction xs) (simp_all add: stable_sort_def sort_key_def stable_insert_insort)

lemma insort_key_place:
  "\<forall>x\<in>set xs. distance a \<le> distance x \<Longrightarrow>
   insort_key distance a (place c xs) = place c (a # xs)"
  by (cases xs) (auto simp: place_def insort_is_Cons)

lemma sort_key_snoc:
  "sorted (map distance xs) \<Longrightarrow> sort_key distance (xs @ [c]) = place c xs"
proof (induction xs)
  case Nil
  then show ?case by (simp add: place_def)
next
  case (Cons a xs)
  then show ?case
    using insort_key_place[of xs a c] by auto
qed

lemma insort_key_append_le:
  "\<forall>y\<in>set ys. f a \<le> f y \<Longrightarrow> insort_key f a (xs @ ys) = insort_key f a xs @ ys"
  by (induction xs) (auto simp: insort_is_Cons)

lemma sort_key_append_le:
  "\<forall>x\<in>set xs. \<forall>y\<in>set ys. f x \<le> f y \<Longrightarrow> sorted (map f ys) \<Longrightarrow> sort_key f (xs @ ys) = sort_key f xs @ ys"
  by (induction xs) (auto simp: insort_key_append_le sort_key_id_if_sorted)

lemma sort_key_replace:
  assumes "sorted (map distance (pre @ e # post))" "distance c \<le> distance e"
  shows "sort_key distance (pre @ c # post) = place c pre @ post"
proof -
  have s: "sorted (map distance pre)" "sorted (map distance post)"
    and le: "\<forall>y\<in>set post. distance e \<le> distance y" "\<forall>x\<in>set pre. distance x \<le> distance e"
    using assms(1) by (auto simp: sorted_append)
  have "sort_key distance ((pre @ [c]) @ post) = sort_key distance (pre @ [c]) @ post"
    using s le assms(2) by (intro sort_key_append_le) (auto intro: order_trans)
  then show ?thesis using s by (simp add: sort_key_snoc)
qed

lemma sorted_place:
  "sorted (map distance xs) \<Longrightarrow> sorted (map distance (place c xs))"
  unfolding place_def
  by (metis sort_key_snoc sorted_sort_key place_def)

lemma set_place [simp]: "set (place c xs) = insert c (set xs)"
  by (metis place_def set_append list.simps(15) takeWhile_dropWhile_id Un_insert_right)

lemma length_place [simp]: "length (place c xs) = Suc (length xs)"
  by (metis place_def length_append length_Cons takeWhile_dropWhile_id add_Suc_right)

lemma insert_result_unmaterialized:
  "properties_vector_materialized r = [] \<Longrightarrow>
   insert_result r pv lnm ll m gt h i = insert_result ResultObject_default pv lnm ll m gt h i"
  by (simp add: insert_result_def ResultObject_default_def)

lemma value_is_duplicate_is_dup:
  "value_is_duplicate r f lnm gt pv = is_dup r (insert_result r0 pv lnm ll m gt (feature_has_id f) (feature_id f))"
  by (auto simp: value_is_duplicate_def is_dup_def insert_result_def)

lemma dedupe_loop_extract:
  assumes "unmaterialized rq"
    and c: "c = insert_result ResultObject_default pv lnm ll m gt (feature_has_id f) (feature_id f)"
  shows "dedupe_loop f lnm gt pv ll m rq =
     (case List.extract (\<lambda>r. is_dup r c) rq of
        None \<Rightarrow> (rq, False, False)
      | Some (pre, e, post) \<Rightarrow>
          if m \<le> distance e then (pre @ c # post, True, False) else (rq, False, True))"
  using assms(1)
proof (induction rq)
  case Nil
  then show ?case by (simp add: extract_Nil_code)
next
  case (Cons r rq)
  have d: "value_is_duplicate r f lnm gt pv = is_dup r c"
    unfolding c by (rule value_is_duplicate_is_dup)
  have u: "unmaterialized rq" "properties_vector_materialized r = []"
    using Cons.prems by (auto simp: unmaterialized_def)
  show ?case
    using Cons.IH[OF u(1)] d insert_result_unmaterialized[OF u(2), of pv lnm ll m gt "feature_has_id f" "feature_id f"]
    by (auto simp: extract_Cons_code c split: option.splits prod.splits)
qed

lemma distance_insert_result [simp]:
  "distance (insert_result r pv lnm ll m gt h i) = m"
  by (simp add: insert_result_def)

lemma feature_body_offer:
  assumes "unmaterialized rq" "rq \<noteq> []"
  shows "feature_body ext qd tile_obj lyr rq f =
     (case candidate_of ext qd tile_obj lyr f of None \<Rightarrow> rq | Some c \<Rightarrow> offer (dedupe qd) rq c)"
proof -
  have l: "properties_vector_materialized (last rq) = []"
    using assms by (auto simp: unmaterialized_def)
  have b: "rq[length rq - Suc 0 := v] = butlast rq @ [v]" for v
    using assms(2) by (induction rq rule: rev_induct) (auto simp: nth_list_update)
  show ?thesis
    using insert_result_unmaterialized[OF l]
    by (auto simp: feature_body_def candidate_of_def offer_def Let_def
        dedupe_loop_extract[OF assms(1) refl] stable_sort_sort_key b
        split: option.splits prod.splits if_splits)
qed

lemma candidate_unmaterialized:
  "candidate_of ext qd tile_obj lyr f = Some c \<Longrightarrow> properties_vector_materialized c = []"
  by (auto simp: candidate_of_def Let_def insert_result_def ResultObject_default_def split: if_splits)

lemma length_offer [simp]: "rq \<noteq> [] \<Longrightarrow> length (offer dd rq c) = length rq"
  by (auto simp: offer_def extract_Some_iff split: option.splits)

lemma set_offer: "rq \<noteq> [] \<Longrightarrow> set (offer dd rq c) \<subseteq> insert c (set rq)"
  by (auto simp: offer_def extract_Some_iff split: option.splits if_splits dest: in_set_butlastD)

lemma sorted_offer: "sorted (map distance rq) \<Longrightarrow> sorted (map distance (offer dd rq c))"
  by (auto simp: offer_def split: option.splits)

lemma state_ok_offer:
  "state_ok rq \<Longrightarrow> properties_vector_materialized c = [] \<Longrightarrow> state_ok (offer dd rq c)"
  unfolding state_ok_def unmaterialized_def
  using set_offer[of rq dd c] sorted_offer[of rq dd c] length_offer[of rq dd c]
  by (metis insert_iff length_0_conv subsetD)

lemma state_ok_foldl_offer:
  "state_ok rq \<Longrightarrow> \<forall>c\<in>set cs. properties_vector_materialized c = [] \<Longrightarrow>
   state_ok (foldl (offer dd) rq cs)"
  by (induction cs arbitrary: rq) (auto simp: state_ok_offer)

lemma features_loop_offer:
  "state_ok rq \<Longrightarrow>
   foldl (feature_body ext qd tile_obj lyr) rq fs =
   foldl (offer (dedupe qd)) rq (List.map_filter (candidate_of ext qd tile_obj lyr) fs)"
proof (induction fs arbitrary: rq)
  case Nil
  then show ?case by simp
next
  case (Cons f fs)
  have fb: "feature_body ext qd tile_obj lyr rq f =
     (case candidate_of ext qd tile_obj lyr f of None \<Rightarrow> rq | Some c \<Rightarrow> offer (dedupe qd) rq c)"
    using Cons.prems by (intro feature_body_offer) (auto simp: state_ok_def)
  show ?case
  proof (cases "candidate_of ext qd tile_obj lyr f")
    case None
    then show ?thesis using Cons fb by simp
  next
    case (Some c)
    then have "state_ok (offer (dedupe qd) rq c)"
      using Cons.prems candidate_unmaterialized state_ok_offer by blast
    then show ?thesis using Cons.IH Some fb by simp
  qed
qed

lemma in_map_filter:
  "c \<in> set (List.map_filter g xs) \<longleftrightarrow> (\<exists>x\<in>set xs. g x = Some c)"
  by (induction xs) (auto split: option.splits)

lemma layer_candidates_unmaterialized:
  "c \<in> set (layer_candidates ext qd tile_obj lyr) \<Longrightarrow> properties_vector_materialized c = []"
  by (auto simp: layer_candidates_def in_map_filter candidate_unmaterialized split: if_splits)

lemma layer_body_offer:
  "state_ok rq \<Longrightarrow>
   layer_body ext qd tile_obj rq lyr = foldl (offer (dedupe qd)) rq (layer_candidates ext qd tile_obj lyr)"
  by (simp add: layer_body_def layer_candidates_def features_loop_offer)

lemma layers_loop_offer:
  "state_ok rq \<Longrightarrow>
   foldl (layer_body ext qd tile_obj) rq lyrs =
   foldl (offer (dedupe qd)) rq (concat (map (layer_candidates ext qd tile_obj) lyrs))"
proof (induction lyrs arbitrary: rq)
  case Nil
  then show ?case by simp
next
  case (Cons l lyrs)
  have "state_ok (foldl (offer (dedupe qd)) rq (layer_candidates ext qd tile_obj l))"
    using Cons.prems layer_candidates_unmaterialized by (intro state_ok_foldl_offer) auto
  then show ?case using Cons by (simp add: layer_body_offer)
qed

lemma tile_candidates_unmaterialized:
  "c \<in> set (tile_candidates ext qd tile_obj) \<Longrightarrow> properties_vector_materialized c = []"
  by (auto simp: tile_candidates_def layer_candidates_unmaterialized split: tile_data.splits)

lemma tiles_loop_offer:
  "state_ok rq \<Longrightarrow> list_all decodable ts \<Longrightarrow>
   tiles_loop ext qd rq ts =
   Inr (foldl (offer (dedupe qd)) rq (concat (map (tile_candidates ext qd) ts)))"
proof (induction ts arbitrary: rq)
  case Nil
  then show ?case by simp
next
  case (Cons t ts)
  then obtain lyrs where t: "data t = Tile lyrs"
    by (auto simp: decodable_def split: tile_data.splits)
  have "state_ok (foldl (offer (dedupe qd)) rq (tile_candidates ext qd t))"
    using Cons.prems tile_candidates_unmaterialized by (intro state_ok_foldl_offer) auto
  then show ?case
    using Cons t by (simp add: layers_loop_offer tile_candidates_def)
qed

lemma tiles_loop_Inr_decodable:
  "tiles_loop ext qd rq ts = Inr rq' \<Longrightarrow> list_all decodable ts"
  by (induction ts arbitrary: rq) (auto simp: decodable_def split: tile_data.splits)

lemma tiles_loop_decodable_iff:
  "(\<exists>rq'. tiles_loop ext qd rq ts = Inr rq') \<longleftrightarrow> list_all decodable ts"
  by (induction ts arbitrary: rq) (auto simp: decodable_def split: tile_data.splits)

lemma state_ok_init: "0 < n \<Longrightarrow> state_ok (replicate n ResultObject_default)"
  by (auto simp: state_ok_def unmaterialized_def ResultObject_default_def sorted_replicate)

lemma Execute_run:
  assumes "0 < num_results qd"
  shows "Execute ext qd = Inr rq \<longleftrightarrow> list_all decodable (tiles qd) \<and> rq = map materialize (run ext qd)"
proof (cases "list_all decodable (tiles qd)")
  case True
  then show ?thesis
    using tiles_loop_offer[OF state_ok_init[OF assms] True, of ext qd]
    by (auto simp: Execute_def run_def candidates_def)
next
  case False
  then have "\<And>r. tiles_loop ext qd (replicate (num_results qd) ResultObject_default) (tiles qd) \<noteq> Inr r"
    using tiles_loop_Inr_decodable by blast
  then show ?thesis using False by (auto simp: Execute_def split: sum.splits)
qed

declare OnOK_loop.simps [simp del]

lemma OnOK_loop_Nil [simp]: "OnOK_loop [] arr = arr"
  by (simp add: OnOK_loop.simps)

lemma OnOK_loop_snoc:
  "OnOK_loop (xs @ [x]) arr =
   OnOK_loop xs (if live x then array_set arr (length xs) (feature_obj x) else arr)"
  by (subst OnOK_loop.simps) (simp add: live_def)

lemma OnOK_loop_dead_suffix:
  "\<forall>y\<in>set ys. \<not> live y \<Longrightarrow> OnOK_loop (xs @ ys) arr = OnOK_loop xs arr"
proof (induction ys rule: rev_induct)
  case Nil
  then show ?case by simp
next
  case (snoc y ys)
  have "OnOK_loop ((xs @ ys) @ [y]) arr = OnOK_loop (xs @ ys) arr"
    using snoc.prems by (subst OnOK_loop_snoc) simp
  then show ?case using snoc by simp
qed

lemma OnOK_loop_live_fill:
  "length xs \<le> length arr \<Longrightarrow> \<forall>x\<in>set xs. live x \<Longrightarrow>
   OnOK_loop xs arr = map (\<lambda>r. Some (feature_obj r)) xs @ drop (length xs) arr"
proof (induction xs arbitrary: arr rule: rev_induct)
  case Nil
  then show ?case by simp
next
  case (snoc x xs)
  let ?arr = "arr[length xs := Some (feature_obj x)]"
  have lt: "length xs < length arr" using snoc.prems by simp
  have "OnOK_loop (xs @ [x]) arr = OnOK_loop xs ?arr"
    using snoc.prems lt by (simp add: OnOK_loop_snoc array_set_def)
  also have "\<dots> = map (\<lambda>r. Some (feature_obj r)) xs @ drop (length xs) ?arr"
    using snoc.prems lt by (intro snoc.IH) auto
  also have "drop (length xs) ?arr = Some (feature_obj x) # drop (Suc (length xs)) arr"
    using lt by (metis Cons_nth_drop_Suc drop_update_cancel length_list_update lessI nth_list_update_eq)
  finally show ?case by simp
qed

lemma OnOK_loop_live:
  assumes "\<forall>x\<in>set xs. live x"
  shows "OnOK_loop xs [] = map (\<lambda>r. Some (feature_obj r)) xs"
proof (cases xs rule: rev_cases)
  case Nil
  then show ?thesis by simp
next
  case (snoc ys y)
  let ?arr = "replicate (length ys) None @ [Some (feature_obj y)]"
  have "OnOK_loop xs [] = OnOK_loop ys ?arr"
    using assms snoc by (simp add: OnOK_loop_snoc array_set_def)
  also have "\<dots> = map (\<lambda>r. Some (feature_obj r)) ys @ drop (length ys) ?arr"
    using assms snoc by (intro OnOK_loop_live_fill) auto
  finally show ?thesis using snoc by simp
qed

lemma sorted_dropWhile_dead:
  assumes "sorted (map distance rq)"
  shows "\<forall>y\<in>set (dropWhile live rq). \<not> live y"
proof (cases "dropWhile live rq")
  case Nil
  then show ?thesis by (metis empty_iff empty_set)
next
  case (Cons y ys)
  then have ny: "\<not> live y" by (metis hd_dropWhile list.sel(1) list.distinct(1))
  have "sorted (map distance (takeWhile live rq @ y # ys))"
    using assms Cons by (metis takeWhile_dropWhile_id)
  then have "\<forall>z\<in>set ys. distance y \<le> distance z"
    by (auto simp: sorted_append)
  then show ?thesis using ny Cons by (auto simp: live_def)
qed

lemma OnOK_sorted:
  assumes "sorted (map distance rq)"
  shows "OnOK rq = map (\<lambda>r. Some (feature_obj r)) (takeWhile live rq)"
proof -
  have "OnOK_loop (takeWhile live rq @ dropWhile live rq) [] = OnOK_loop (takeWhile live rq) []"
    using sorted_dropWhile_dead[OF assms] by (rule OnOK_loop_dead_suffix)
  moreover have "\<forall>x\<in>set (takeWhile live rq). live x"
    by (auto dest: set_takeWhileD)
  ultimately show ?thesis
    by (simp add: OnOK_def OnOK_loop_live)
qed

lemma distance_materialize [simp]: "distance (materialize r) = distance r"
  by (simp add: materialize_def)

lemma live_materialize [simp]: "live (materialize r) = live r"
  by (simp add: live_def)

lemma state_ok_run: "0 < num_results qd \<Longrightarrow> state_ok (run ext qd)"
  unfolding run_def candidates_def
  by (intro state_ok_foldl_offer state_ok_init) (auto simp: tile_candidates_unmaterialized)

lemma Worker_emitted:
  assumes "0 < num_results qd"
  shows "Worker ext qd = Inr fc \<longleftrightarrow>
         list_all decodable (tiles qd) \<and> fc = map (\<lambda>r. Some (feature_obj r)) (emitted ext qd)"
proof -
  have s: "sorted (map distance (map materialize (run ext qd)))"
    using state_ok_run[OF assms, of ext] by (simp add: state_ok_def comp_def)
  have t: "takeWhile live (map materialize (run ext qd)) = map materialize (takeWhile live (run ext qd))"
    by (simp add: takeWhile_map comp_def)
  show ?thesis
  proof (cases "list_all decodable (tiles qd)")
    case True
    then have "Execute ext qd = Inr (map materialize (run ext qd))"
      using Execute_run[OF assms, of ext] by simp
    then show ?thesis
      using True OnOK_sorted[OF s] t by (auto simp: Worker_def emitted_def)
  next
    case False
    then have "\<And>rq. Execute ext qd \<noteq> Inr rq"
      using Execute_run[OF assms, of ext] by simp
    then show ?thesis
      using False by (auto simp: Worker_def split: sum.splits)
  qed
qed

subsection \<open>Evaluating the example inputs\<close>

lemma DBL_MAX_large: "1000 < DBL_MAX"
proof -
  have "(1000::real) < 2 ^ 10" by simp
  also have "\<dots> \<le> 2 ^ 971" by (rule power_increasing) simp_all
  also have "\<dots> \<le> (2 ^ 53 - 1) * 2 ^ 971" by simp
  finally show ?thesis by (simp add: DBL_MAX_def)
qed

lemma DBL_MAX_cmp:
  "x \<le> 1000 \<Longrightarrow> x < DBL_MAX"
  "x \<le> 1000 \<Longrightarrow> x \<le> DBL_MAX"
  "x \<le> 1000 \<Longrightarrow> \<not> DBL_MAX < x"
  "x \<le> 1000 \<Longrightarrow> \<not> DBL_MAX \<le> x"
  using DBL_MAX_large by simp_all

lemma ex_candidate:
  "candidate_of ex_ext (ex_query ts n dd rad) (ex_tile fs0) \<lparr> name = ''poi'', extent = 4096, features = fs \<rparr>
     (ex_feature t i ps px) =
   (if t = UNKNOWN \<or> rad < \<bar>real_of_int px\<bar> then None
    else Some (ex_result (get_geometry_type (ex_feature t i ps px)) i ps px))"
  by (cases t)
     (auto simp: candidate_of_def ex_ext_def ex_kernel_def ex_query_def ex_tile_def ex_feature_def ex_result_def
      Let_def insert_result_def ResultObject_default_def get_properties_vector_def get_geometry_type_def
      feature_has_id_def feature_id_def split: option.splits)

lemma ex_candidates:
  "candidates ex_ext (ex_query [ex_tile fs] n dd rad) =
   List.map_filter (candidate_of ex_ext (ex_query [ex_tile fs] n dd rad) (ex_tile fs) \<lparr> name = ''poi'', extent = 4096, features = fs \<rparr>) fs"
  by (simp add: candidates_def tile_candidates_def layer_candidates_def ex_query_def ex_tile_def)

lemma replicate_2: "replicate 2 x = [x, x]"
  by (simp add: numeral_2_eq_2)

lemma ex_run_1:
  "run ex_ext (ex_query [ex_tile [ex_feature POINT (Some 7) [(''name'', string_value ''X'')] 3,
       ex_feature POLYGON None [] 0, ex_feature UNKNOWN None [] 0, ex_feature POINT None [] 50]] 2 True 10)
   = [ex_result polygon None [] 0, ex_result point (Some 7) [(''name'', string_value ''X'')] 3]"
  apply (simp add: run_def ex_candidates ex_candidate get_geometry_type_def)
  apply (simp add: ex_query_def replicate_2 offer_def extract_Cons_code extract_Nil_code is_dup_def
     ResultObject_default_def ex_result_def ex_feature_def DBL_MAX_cmp)
  done

subsection \<open>The queue keeps its length\<close>

lemma length_stable_insert [simp]: "length (stable_insert cmp v ys) = Suc (length ys)"
  by (induction ys) auto

lemma length_stable_sort [simp]: "length (stable_sort cmp xs) = length xs"
  by (induction xs) (auto simp: stable_sort_def)

lemma length_dedupe_loop [simp]:
  "length (fst (dedupe_loop f lnm gt pv ll m rq)) = length rq"
  by (induction rq) (auto split: prod.splits)

lemma length_feature_body [simp]:
  "length (feature_body ext qd tile_obj lyr rq f) = length rq"
  by (simp add: feature_body_def Let_def case_prod_beta)

lemma length_features_loop [simp]:
  "length (foldl (feature_body ext qd tile_obj lyr) rq fs) = length rq"
  by (induction fs arbitrary: rq) auto

lemma length_layer_body [simp]:
  "length (layer_body ext qd tile_obj rq lyr) = length rq"
  by (simp add: layer_body_def)

lemma length_layers_loop [simp]:
  "length (foldl (layer_body ext qd tile_obj) rq lyrs) = length rq"
  by (induction lyrs arbitrary: rq) auto

lemma length_tiles_loop:
  "tiles_loop ext qd rq ts = Inr rq' \<Longrightarrow> length rq' = length rq"
  by (induction ts arbitrary: rq) (auto split: tile_data.splits)

lemma length_Execute:
  "Execute ext qd = Inr rq \<Longrightarrow> length rq = num_results qd"
  by (auto simp: Execute_def split: sum.splits dest: length_tiles_loop)

lemma length_array_set: "length (array_set arr i v) = max (length arr) (Suc i)"
  by (auto simp: array_set_def)

lemma length_OnOK_loop:
  "length (OnOK_loop xs arr) \<le> max (length arr) (length xs)"
proof (induction xs arbitrary: arr rule: rev_induct)
  case Nil
  then show ?case by simp
next
  case (snoc x xs)
  show ?case
    using snoc.IH[of arr] snoc.IH[of "array_set arr (length xs) (feature_obj x)"]
    by (auto simp: OnOK_loop_snoc length_array_set)
qed

lemma length_OnOK: "length (OnOK rq) \<le> length rq"
  using length_OnOK_loop[of rq "[]"] by (simp add: OnOK_def)

text \<open>
  C5: the result set holds exactly \<open>limit\<close> slots throughout execution; the emitted
  feature collection has at most \<open>limit\<close> features.
\<close>

theorem C5_fixed_capacity:
  "length (feature_body ext qd tile_obj lyr results_queue f) = length results_queue
   \<and> (Execute ext qd = Inr rq \<longrightarrow> length rq = num_results qd)
   \<and> (Worker ext qd = Inr fc \<longrightarrow> length fc \<le> num_results qd)"
proof (intro conjI impI)
  show "length (feature_body ext qd tile_obj lyr results_queue f) = length results_queue"
    by simp
  show "length rq = num_results qd" if "Execute ext qd = Inr rq"
    using that by (rule length_Execute)
  show "length fc \<le> num_results qd" if w: "Worker ext qd = Inr fc"
  proof -
    obtain rq' where e: "Execute ext qd = Inr rq'" and fc: "fc = OnOK rq'"
      using w by (auto simp: Worker_def split: sum.splits)
    show ?thesis
      using length_OnOK[of rq'] length_Execute[OF e] fc by simp
  qed
qed

lemma ex_decodable [simp]: "decodable (ex_tile fs)"
  by (simp add: decodable_def ex_tile_def)

lemma ex_num_results [simp]: "num_results (ex_query ts n dd rad) = n" "tiles (ex_query ts n dd rad) = ts"
  by (simp_all add: ex_query_def)

lemma ex_Execute_1:
  "Execute ex_ext (ex_query [ex_tile [ex_feature POINT (Some 7) [(''name'', string_value ''X'')] 3,
       ex_feature POLYGON None [] 0, ex_feature UNKNOWN None [] 0, ex_feature POINT None [] 50]] 2 True 10)
   = Inr [materialize (ex_result polygon None [] 0),
          materialize (ex_result point (Some 7) [(''name'', string_value ''X'')] 3)]"
  by (subst Execute_run) (simp_all add: ex_run_1)

lemma ex_live [simp]: "\<bar>real_of_int px\<bar> \<le> 1000 \<Longrightarrow> live (ex_result gt i ps px)"
  by (simp add: live_def ex_result_def DBL_MAX_cmp)

lemma ex_Worker_1:
  "Worker ex_ext (ex_query [ex_tile [ex_feature POINT (Some 7) [(''name'', string_value ''X'')] 3,
       ex_feature POLYGON None [] 0, ex_feature UNKNOWN None [] 0, ex_feature POINT None [] 50]] 2 True 10)
   = Inr [Some (feature_obj (materialize (ex_result polygon None [] 0))),
          Some (feature_obj (materialize (ex_result point (Some 7) [(''name'', string_value ''X'')] 3)))]"
  by (subst Worker_emitted) (simp_all add: emitted_def ex_run_1)

theorem C5_fixed_capacity_witness:
  "length (feature_body ex_ext
      (ex_query [ex_tile [ex_feature POINT None [] 4]] 2 True 10)
      (ex_tile [ex_feature POINT None [] 4]) \<lparr> name = ''poi'', extent = 4096, features = [] \<rparr>
      [ResultObject_default, ResultObject_default] (ex_feature POINT None [] 4)) = 2
   \<and> Execute ex_ext (ex_query [ex_tile [ex_feature POINT (Some 7) [(''name'', string_value ''X'')] 3,
       ex_feature POLYGON None [] 0, ex_feature UNKNOWN None [] 0, ex_feature POINT None [] 50]] 2 True 10)
     = Inr [materialize (ex_result polygon None [] 0),
            materialize (ex_result point (Some 7) [(''name'', string_value ''X'')] 3)]
   \<and> length [materialize (ex_result polygon None [] 0),
            materialize (ex_result point (Some 7) [(''name'', string_value ''X'')] 3)] = 2
   \<and> Worker ex_ext (ex_query [ex_tile [ex_feature POINT (Some 7) [(''name'', string_value ''X'')] 3,
       ex_feature POLYGON None [] 0, ex_feature UNKNOWN None [] 0, ex_feature POINT None [] 50]] 2 True 10)
     = Inr [Some (feature_obj (materialize (ex_result polygon None [] 0))),
          Some (feature_obj (materialize (ex_result point (Some 7) [(''name'', string_value ''X'')] 3)))]
   \<and> length [Some (feature_obj (materialize (ex_result polygon None [] 0))),
          Some (feature_obj (materialize (ex_result point (Some 7) [(''name'', string_value ''X'')] 3)))] \<le> (2::nat)"
  using C5_fixed_capacity[of ex_ext
      "ex_query [ex_tile [ex_feature POINT None [] 4]] 2 True 10"
      "ex_tile [ex_feature POINT None [] 4]" "\<lparr> name = ''poi'', extent = 4096, features = [] \<rparr>"
      "[ResultObject_default, ResultObject_default]" "ex_feature POINT None [] 4"]
    C5_fixed_capacity[of ex_ext "ex_query [ex_tile [ex_feature POINT (Some 7) [(''name'', string_value ''X'')] 3,
       ex_feature POLYGON None [] 0, ex_feature UNKNOWN None [] 0, ex_feature POINT None [] 50]] 2 True 10"]
    ex_Execute_1 ex_Worker_1
  by simp

subsection \<open>Where the entries of the queue come from\<close>

lemma candidate_of_Some:
  "candidate_of ext qd tile_obj lyr f = Some c \<longleftrightarrow>
     (geometry_filter_type qd = all \<or> geometry_filter_type qd = get_geometry_type f)
     \<and> 0 \<le> cp_distance (cp_info_of ext qd tile_obj lyr f)
     \<and> meters_of ext qd tile_obj lyr f \<le> radius qd
     \<and> c = insert_result ResultObject_default (get_properties_vector f) (name lyr)
              (snap_lnglat ext qd tile_obj lyr f) (meters_of ext qd tile_obj lyr f)
              (get_geometry_type f) (feature_has_id f) (feature_id f)"
  by (auto simp: candidate_of_def cp_info_of_def snap_lnglat_def meters_of_def Let_def)

lemma feature_body_skip:
  "(geometry_filter_type qd \<noteq> all \<and> geometry_filter_type qd \<noteq> get_geometry_type f)
   \<or> cp_distance (cp_info_of ext qd tile_obj lyr f) < 0
   \<or> radius qd < meters_of ext qd tile_obj lyr f \<Longrightarrow>
   feature_body ext qd tile_obj lyr rq f = rq"
  by (auto simp: feature_body_def cp_info_of_def snap_lnglat_def meters_of_def Let_def)

lemma set_foldl_offer:
  "rq \<noteq> [] \<Longrightarrow> set (foldl (offer dd) rq cs) \<subseteq> set rq \<union> set cs"
proof (induction cs arbitrary: rq)
  case Nil
  then show ?case by simp
next
  case (Cons c cs)
  have ne: "offer dd rq c \<noteq> []"
    using Cons.prems length_offer[of rq dd c] by (metis length_0_conv)
  show ?case
    using Cons.IH[OF ne] set_offer[OF Cons.prems, of dd c] by auto
qed

lemma live_not_default: "live r \<Longrightarrow> r \<noteq> ResultObject_default"
  by (auto simp: live_def ResultObject_default_def)

lemma run_entries:
  assumes "0 < num_results qd" "r \<in> set (run ext qd)" "live r"
  shows "r \<in> set (candidates ext qd)"
proof -
  have "set (run ext qd) \<subseteq> set (replicate (num_results qd) ResultObject_default) \<union> set (candidates ext qd)"
    unfolding run_def using assms(1) by (intro set_foldl_offer) simp
  then show ?thesis using assms live_not_default by auto
qed

lemma candidates_origin:
  assumes "c \<in> set (candidates ext qd)"
  shows "\<exists>tile_obj lyrs lyr f. tile_obj \<in> set (tiles qd) \<and> data tile_obj = Tile lyrs \<and> lyr \<in> set lyrs
           \<and> f \<in> set (features lyr) \<and> candidate_of ext qd tile_obj lyr f = Some c"
proof -
  obtain tile_obj where t: "tile_obj \<in> set (tiles qd)" "c \<in> set (tile_candidates ext qd tile_obj)"
    using assms by (auto simp: candidates_def)
  then obtain lyrs where d: "data tile_obj = Tile lyrs"
    by (cases "data tile_obj") (auto simp: tile_candidates_def)
  then obtain lyr where l: "lyr \<in> set lyrs" "c \<in> set (layer_candidates ext qd tile_obj lyr)"
    using t by (auto simp: tile_candidates_def)
  then obtain f where "f \<in> set (features lyr)" "candidate_of ext qd tile_obj lyr f = Some c"
    by (auto simp: layer_candidates_def in_map_filter split: if_splits)
  then show ?thesis using t d l by blast
qed

lemma Execute_entries:
  assumes "Execute ext qd = Inr rq" "r \<in> set rq" "distance r < DBL_MAX"
  shows "\<exists>c\<in>set (candidates ext qd). r = materialize c"
proof (cases "num_results qd = 0")
  case True
  then show ?thesis using assms length_Execute[OF assms(1)] by simp
next
  case False
  then have "rq = map materialize (run ext qd)"
    using assms(1) Execute_run[of qd ext rq] by simp
  then obtain c where "c \<in> set (run ext qd)" "r = materialize c"
    using assms(2) by auto
  then show ?thesis
    using run_entries[of qd c ext] False assms(3) by (auto simp: live_def)
qed

lemma Worker_features:
  assumes "Worker ext qd = Inr fc" "Some ft \<in> set fc"
  shows "\<exists>rq r. Execute ext qd = Inr rq \<and> r \<in> set rq \<and> distance r < DBL_MAX \<and> ft = feature_obj r"
proof (cases "num_results qd = 0")
  case True
  obtain rq where e: "Execute ext qd = Inr rq" "fc = OnOK rq"
    using assms(1) by (auto simp: Worker_def split: sum.splits)
  then have "fc = []" using length_Execute[OF e(1)] length_OnOK[of rq] True by simp
  then show ?thesis using assms(2) by simp
next
  case False
  then have n: "0 < num_results qd" by simp
  have fc: "fc = map (\<lambda>r. Some (feature_obj r)) (emitted ext qd)" and d: "list_all decodable (tiles qd)"
    using assms(1) Worker_emitted[OF n, of ext fc] by simp_all
  then obtain r where r: "r \<in> set (emitted ext qd)" "ft = feature_obj r"
    using assms(2) by auto
  then obtain c where c: "c \<in> set (takeWhile live (run ext qd))" "r = materialize c"
    by (auto simp: emitted_def)
  have "c \<in> set (run ext qd)" "live c"
    using c(1) by (auto dest: set_takeWhileD)
  then show ?thesis
    using Execute_run[OF n, of ext "map materialize (run ext qd)"] d r c
    by (auto simp: live_def)
qed

lemma feature_obj_fields [simp]:
  "tq_distance (feature_obj r) = distance r"
  "f_coordinates (feature_obj r) = coordinates r"
  "f_id (feature_obj r) = uint64_to_double (id' r)"
  "tq_layer (feature_obj r) = layer_name r"
  "tq_geometry (feature_obj r) = getGeomTypeString (GeomType_val (original_geometry_type r))"
  by (simp_all add: feature_obj_def)

lemma materialize_fields [simp]:
  "coordinates (materialize r) = coordinates r"
  "layer_name (materialize r) = layer_name r"
  "original_geometry_type (materialize r) = original_geometry_type r"
  "has_id (materialize r) = has_id r"
  "id' (materialize r) = id' r"
  "properties_vector (materialize r) = properties_vector r"
  by (simp_all add: materialize_def)

lemma insert_result_fields [simp]:
  "coordinates (insert_result r pv lnm ll m gt h i) = ll"
  "layer_name (insert_result r pv lnm ll m gt h i) = lnm"
  "original_geometry_type (insert_result r pv lnm ll m gt h i) = gt"
  "has_id (insert_result r pv lnm ll m gt h i) = h"
  "id' (insert_result r pv lnm ll m gt h i) = i"
  "properties_vector (insert_result r pv lnm ll m gt h i) = pv"
  "properties_vector_materialized (insert_result r pv lnm ll m gt h i) = properties_vector_materialized r"
  by (simp_all add: insert_result_def)

lemma meters_of_nonneg:
  "\<forall>p q. 0 \<le> distance_in_meters ext p q \<Longrightarrow> 0 \<le> meters_of ext qd tile_obj lyr f"
  by (simp add: meters_of_def del: split_paired_All)

text \<open>
  C2: a candidate whose distance in meters exceeds the radius is skipped, so every
  emitted feature has \<open>tilequery.distance \<le> radius\<close>; with radius 0 only distance 0 is
  emitted (the great-circle distance of util.hpp, a parameter here, being non-negative).
\<close>

theorem C2_radius_cutoff:
  "(radius qd < meters_of ext qd tile_obj lyr f \<longrightarrow>
      feature_body ext qd tile_obj lyr results_queue f = results_queue)
   \<and> (Worker ext qd = Inr fc \<and> Some ft \<in> set fc \<longrightarrow>
        tq_distance ft \<le> radius qd
        \<and> (radius qd = 0 \<and> (\<forall>p q. 0 \<le> distance_in_meters ext p q) \<longrightarrow> tq_distance ft = 0))"
proof (intro conjI impI)
  show "feature_body ext qd tile_obj lyr results_queue f = results_queue"
    if "radius qd < meters_of ext qd tile_obj lyr f"
    using that by (simp add: feature_body_skip)
next
  assume w: "Worker ext qd = Inr fc \<and> Some ft \<in> set fc"
  then obtain rq r where r: "Execute ext qd = Inr rq" "r \<in> set rq" "distance r < DBL_MAX" "ft = feature_obj r"
    using Worker_features by blast
  then obtain c where c: "c \<in> set (candidates ext qd)" "r = materialize c"
    using Execute_entries by blast
  then obtain t l g where g: "candidate_of ext qd t l g = Some c"
    using candidates_origin by blast
  then have le: "distance c \<le> radius qd" and eq: "distance c = meters_of ext qd t l g"
    by (simp_all add: candidate_of_Some)
  show "tq_distance ft \<le> radius qd"
    using le r c by simp
  show "tq_distance ft = 0" if "radius qd = 0 \<and> (\<forall>p q. 0 \<le> distance_in_meters ext p q)"
    using that le eq meters_of_nonneg[of ext qd t l g] r c by simp
qed

lemma ex_run_2:
  "run ex_ext (ex_query [ex_tile [ex_feature POINT (Some 7) [(''name'', string_value ''X'')] 3,
       ex_feature POLYGON None [] 0, ex_feature UNKNOWN None [] 0, ex_feature POINT None [] 50]] 2 True 0)
   = [ex_result polygon None [] 0, ResultObject_default]"
  apply (simp add: run_def ex_candidates ex_candidate get_geometry_type_def)
  apply (simp add: ex_query_def replicate_2 offer_def extract_Cons_code extract_Nil_code is_dup_def
     ResultObject_default_def ex_result_def ex_feature_def DBL_MAX_cmp)
  done

lemma not_live_default [simp]: "\<not> live ResultObject_default"
  by (simp add: live_def ResultObject_default_def)

lemma ex_Worker_2:
  "Worker ex_ext (ex_query [ex_tile [ex_feature POINT (Some 7) [(''name'', string_value ''X'')] 3,
       ex_feature POLYGON None [] 0, ex_feature UNKNOWN None [] 0, ex_feature POINT None [] 50]] 2 True 0)
   = Inr [Some (feature_obj (materialize (ex_result polygon None [] 0)))]"
  by (subst Worker_emitted) (simp_all add: emitted_def ex_run_2)

lemma ex_meters_of:
  "meters_of ex_ext (ex_query ts n dd rad) (ex_tile fs0) \<lparr> name = ''poi'', extent = 4096, features = fs \<rparr>
     (ex_feature POINT i ps px) = \<bar>real_of_int px\<bar>"
  by (simp add: meters_of_def snap_lnglat_def cp_info_of_def ex_ext_def ex_kernel_def ex_feature_def ex_query_def)

theorem C2_radius_cutoff_witness:
  "radius (ex_query [] 2 True 10)
     < meters_of ex_ext (ex_query [] 2 True 10) (ex_tile []) \<lparr> name = ''poi'', extent = 4096, features = [] \<rparr>
         (ex_feature POINT None [] 50)
   \<and> feature_body ex_ext (ex_query [] 2 True 10) (ex_tile []) \<lparr> name = ''poi'', extent = 4096, features = [] \<rparr>
         [ResultObject_default] (ex_feature POINT None [] 50) = [ResultObject_default]
   \<and> Worker ex_ext (ex_query [ex_tile [ex_feature POINT (Some 7) [(''name'', string_value ''X'')] 3,
         ex_feature POLYGON None [] 0, ex_feature UNKNOWN None [] 0, ex_feature POINT None [] 50]] 2 True 10)
       = Inr [Some (feature_obj (materialize (ex_result polygon None [] 0))),
              Some (feature_obj (materialize (ex_result point (Some 7) [(''name'', string_value ''X'')] 3)))]
   \<and> tq_distance (feature_obj (materialize (ex_result point (Some 7) [(''name'', string_value ''X'')] 3))) = 3
   \<and> (3::real) \<le> radius (ex_query [] 2 True 10)
   \<and> Worker ex_ext (ex_query [ex_tile [ex_feature POINT (Some 7) [(''name'', string_value ''X'')] 3,
         ex_feature POLYGON None [] 0, ex_feature UNKNOWN None [] 0, ex_feature POINT None [] 50]] 2 True 0)
       = Inr [Some (feature_obj (materialize (ex_result polygon None [] 0)))]
   \<and> tq_distance (feature_obj (materialize (ex_result polygon None [] 0))) = 0"
  using
    C2_radius_cutoff[of "ex_query [] 2 True 10" ex_ext "ex_tile []"
      "\<lparr> name = ''poi'', extent = 4096, features = [] \<rparr>" "ex_feature POINT None [] 50"
      "[ResultObject_default]"
      "[Some (feature_obj (materialize (ex_result polygon None [] 0))),
        Some (feature_obj (materialize (ex_result point (Some 7) [(''name'', string_value ''X'')] 3)))]"
      "feature_obj (materialize (ex_result point (Some 7) [(''name'', string_value ''X'')] 3))"]
    C2_radius_cutoff[of "ex_query [ex_tile [ex_feature POINT (Some 7) [(''name'', string_value ''X'')] 3,
         ex_feature POLYGON None [] 0, ex_feature UNKNOWN None [] 0, ex_feature POINT None [] 50]] 2 True 0" ex_ext _ _ _ _
      "[Some (feature_obj (materialize (ex_result polygon None [] 0)))]"
      "feature_obj (materialize (ex_result polygon None [] 0))"]
    ex_Worker_1 ex_Worker_2
  by (simp add: ex_meters_of ex_result_def) (simp add: ex_query_def)

subsection \<open>The duplicate scan\<close>


lemma feature_body_pass:
  assumes "geometry_filter_type qd = all \<or> geometry_filter_type qd = get_geometry_type f"
    "0 \<le> cp_distance (cp_info_of ext qd tile_obj lyr f)"
    "meters_of ext qd tile_obj lyr f \<le> radius qd"
  shows "feature_body ext qd tile_obj lyr rq f =
     (let m = meters_of ext qd tile_obj lyr f;
          new = (\<lambda>old. insert_result old (get_properties_vector f) (name lyr)
                   (snap_lnglat ext qd tile_obj lyr f) m (get_geometry_type f)
                   (feature_has_id f) (feature_id f));
          scan = (if dedupe qd
                  then dedupe_loop f (name lyr) (get_geometry_type f) (get_properties_vector f)
                         (snap_lnglat ext qd tile_obj lyr f) m rq
                  else (rq, False, False))
      in if snd (snd scan) then fst scan
         else if fst (snd scan) then stable_sort CompareDistance (fst scan)
         else if m < distance (last (fst scan))
         then stable_sort CompareDistance ((fst scan)[length (fst scan) - 1 := new (last (fst scan))])
         else fst scan)"
proof -
  have f: "\<not> (geometry_filter_type qd \<noteq> all \<and> geometry_filter_type qd \<noteq> get_geometry_type f)"
    using assms(1) by blast
  have d: "\<not> cp_distance (cp_info_of ext qd tile_obj lyr f) < 0"
    using assms(2) by simp
  have m: "\<not> meters_of ext qd tile_obj lyr f > radius qd"
    using assms(3) by simp
  show ?thesis
    unfolding feature_body_def Let_def case_prod_beta
    unfolding cp_info_of_def[symmetric]
    unfolding snap_lnglat_def[symmetric]
    unfolding meters_of_def[symmetric]
    unfolding if_not_P[OF f] if_not_P[OF d] if_not_P[OF m]
    by (rule refl)
qed


lemma ex_layer_name [simp]: "name \<lparr> name = n, extent = e, features = fs \<rparr> = n"
  by simp


subsection \<open>What a loop iteration writes\<close>

lemma set_stable_insert [simp]: "set (stable_insert cmp v ys) = insert v (set ys)"
  by (induction ys) auto

lemma set_stable_sort [simp]: "set (stable_sort cmp xs) = set xs"
  by (induction xs) (auto simp: stable_sort_def)

lemma set_dedupe_loop:
  "r \<in> set (fst (dedupe_loop f lnm gt pv ll m rq)) \<Longrightarrow>
   r \<in> set rq \<or> (\<exists>e. r = insert_result e pv lnm ll m gt (feature_has_id f) (feature_id f))"
  by (induction rq) (auto split: prod.splits if_splits)

lemma set_feature_body_new:
  assumes "r \<in> set (feature_body ext qd tile_obj lyr rq f)" "r \<notin> set rq"
  shows "0 \<le> cp_distance (cp_info_of ext qd tile_obj lyr f)
       \<and> (\<exists>e. r = insert_result e (get_properties_vector f) (name lyr)
                   (snap_lnglat ext qd tile_obj lyr f) (meters_of ext qd tile_obj lyr f)
                   (get_geometry_type f) (feature_has_id f) (feature_id f))"
proof -
  have pass: "geometry_filter_type qd = all \<or> geometry_filter_type qd = get_geometry_type f"
    "0 \<le> cp_distance (cp_info_of ext qd tile_obj lyr f)"
    "meters_of ext qd tile_obj lyr f \<le> radius qd"
    using assms feature_body_skip[of qd f ext tile_obj lyr rq] by fastforce+
  define scan where "scan = (if dedupe qd
                  then dedupe_loop f (name lyr) (get_geometry_type f) (get_properties_vector f)
                         (snap_lnglat ext qd tile_obj lyr f) (meters_of ext qd tile_obj lyr f) rq
                  else (rq, False, False))"
  let ?new = "\<lambda>old. insert_result old (get_properties_vector f) (name lyr)
                   (snap_lnglat ext qd tile_obj lyr f) (meters_of ext qd tile_obj lyr f)
                   (get_geometry_type f) (feature_has_id f) (feature_id f)"
  have s: "x \<in> set (fst scan) \<Longrightarrow> x \<in> set rq \<or> (\<exists>e. x = ?new e)" for x
    unfolding scan_def using set_dedupe_loop by (auto split: if_splits)
  have "r \<in> set (fst scan) \<or> r = ?new (last (fst scan))"
    using assms(1) set_update_subset_insert[of "fst scan" "length (fst scan) - 1" "?new (last (fst scan))"]
    unfolding feature_body_pass[OF pass] Let_def scan_def[symmetric]
    by (auto split: if_splits)
  then show ?thesis using s assms(2) pass(2) by blast
qed

text \<open>
  C7: an entry written by a loop iteration carries the request's \<open>(lon, lat)\<close> and
  distance 0 when the kernel's distance is exactly 0, and the converted snap point with its
  distance in meters otherwise; the emitted feature copies both fields.
\<close>

theorem C7_direct_hit:
  assumes "r \<in> set (feature_body ext qd tile_obj lyr results_queue f)"
    and "r \<notin> set results_queue"
  shows "(cp_distance (cp_info_of ext qd tile_obj lyr f) = 0 \<longrightarrow>
            coordinates r = (longitude qd, latitude qd) \<and> distance r = 0)
       \<and> (cp_distance (cp_info_of ext qd tile_obj lyr f) \<noteq> 0 \<longrightarrow>
            coordinates r = convert_vt_to_ll ext (extent lyr) (tile_z tile_obj) (tile_x tile_obj)
                              (tile_y tile_obj) (cp_info_of ext qd tile_obj lyr f)
            \<and> distance r = distance_in_meters ext (longitude qd, latitude qd) (coordinates r))
       \<and> f_coordinates (feature_obj (materialize r)) = coordinates r
       \<and> tq_distance (feature_obj (materialize r)) = distance r"
proof -
  obtain e where nn: "0 \<le> cp_distance (cp_info_of ext qd tile_obj lyr f)"
    and r: "r = insert_result e (get_properties_vector f) (name lyr)
                   (snap_lnglat ext qd tile_obj lyr f) (meters_of ext qd tile_obj lyr f)
                   (get_geometry_type f) (feature_has_id f) (feature_id f)"
    using set_feature_body_new[OF assms] by blast
  show ?thesis
    using nn by (auto simp: r snap_lnglat_def meters_of_def)
qed

theorem C7_direct_hit_witness:
  "ex_result polygon None [] 0
     \<in> set (feature_body ex_ext (ex_query [] 2 True 10) (ex_tile [])
              \<lparr> name = ''poi'', extent = 4096, features = [] \<rparr>
              [ResultObject_default, ResultObject_default] (ex_feature POLYGON None [] 0))
   \<and> ex_result polygon None [] 0 \<notin> set [ResultObject_default, ResultObject_default]
   \<and> cp_distance (cp_info_of ex_ext (ex_query [] 2 True 10) (ex_tile [])
         \<lparr> name = ''poi'', extent = 4096, features = [] \<rparr> (ex_feature POLYGON None [] 0)) = 0
   \<and> coordinates (ex_result polygon None [] 0)
       = (longitude (ex_query [] 2 True 10), latitude (ex_query [] 2 True 10))
   \<and> distance (ex_result polygon None [] 0) = 0
   \<and> ex_result point None [] 3
     \<in> set (feature_body ex_ext (ex_query [] 2 True 10) (ex_tile [])
              \<lparr> name = ''poi'', extent = 4096, features = [] \<rparr>
              [ResultObject_default, ResultObject_default] (ex_feature POINT None [] 3))
   \<and> cp_distance (cp_info_of ex_ext (ex_query [] 2 True 10) (ex_tile [])
         \<lparr> name = ''poi'', extent = 4096, features = [] \<rparr> (ex_feature POINT None [] 3)) = 3
   \<and> coordinates (ex_result point None [] 3) = (3, 0)
   \<and> distance (ex_result point None [] 3) = 3"
proof -
  let ?q = "ex_query [] 2 True 10" and ?l = "\<lparr> name = ''poi'', extent = 4096, features = [] \<rparr>"
  have u: "unmaterialized [ResultObject_default, ResultObject_default]"
    by (simp add: unmaterialized_def ResultObject_default_def)
  have b0: "feature_body ex_ext ?q (ex_tile []) ?l [ResultObject_default, ResultObject_default]
              (ex_feature POLYGON None [] 0) = [ex_result polygon None [] 0, ResultObject_default]"
    apply (subst feature_body_offer[OF u])
     apply simp
    apply (simp add: ex_candidate get_geometry_type_def)
    apply (simp add: ex_feature_def ex_query_def offer_def extract_Cons_code extract_Nil_code
        is_dup_def ResultObject_default_def ex_result_def DBL_MAX_cmp)
    done
  have b3: "feature_body ex_ext ?q (ex_tile []) ?l [ResultObject_default, ResultObject_default]
              (ex_feature POINT None [] 3) = [ex_result point None [] 3, ResultObject_default]"
    apply (subst feature_body_offer[OF u])
     apply simp
    apply (simp add: ex_candidate get_geometry_type_def)
    apply (simp add: ex_feature_def ex_query_def offer_def extract_Cons_code extract_Nil_code
        is_dup_def ResultObject_default_def ex_result_def DBL_MAX_cmp)
    done
  have n0: "ex_result polygon None [] 0 \<notin> set [ResultObject_default, ResultObject_default]"
    and n3: "ex_result point None [] 3 \<notin> set [ResultObject_default, ResultObject_default]"
    by (simp_all add: ex_result_def ResultObject_default_def)
  have m0: "ex_result polygon None [] 0 \<in> set (feature_body ex_ext ?q (ex_tile []) ?l
              [ResultObject_default, ResultObject_default] (ex_feature POLYGON None [] 0))"
    and m3: "ex_result point None [] 3 \<in> set (feature_body ex_ext ?q (ex_tile []) ?l
              [ResultObject_default, ResultObject_default] (ex_feature POINT None [] 3))"
    by (simp_all add: b0 b3)
  have c0: "cp_distance (cp_info_of ex_ext ?q (ex_tile []) ?l (ex_feature POLYGON None [] 0)) = 0"
    and c3: "cp_distance (cp_info_of ex_ext ?q (ex_tile []) ?l (ex_feature POINT None [] 3)) = 3"
    by (simp_all add: cp_info_of_def ex_ext_def ex_kernel_def ex_feature_def)
  show ?thesis
    using C7_direct_hit[OF m0 n0] C7_direct_hit[OF m3 n3] m0 m3 n0 c0 c3
    by (simp add: ex_ext_def ex_kernel_def ex_feature_def cp_info_of_def ex_query_def)
qed

subsection \<open>Geometry types of the entries\<close>

lemma get_geometry_type_unknown: "get_geometry_type f = unknown \<longleftrightarrow> geometry_type f = UNKNOWN"
  by (simp add: get_geometry_type_def split: vtzero_GeomType.splits)

lemma get_geometry_type_range: "get_geometry_type f \<in> {point, linestring, polygon, unknown}"
  by (simp add: get_geometry_type_def split: vtzero_GeomType.splits)

lemma unknown_not_candidate:
  assumes "skips_unknown ext \<or> geometry_filter_type qd \<in> {point, linestring, polygon}"
    and "geometry_type f = UNKNOWN"
  shows "(geometry_filter_type qd \<noteq> all \<and> geometry_filter_type qd \<noteq> get_geometry_type f)
       \<or> cp_distance (cp_info_of ext qd tile_obj lyr f) < 0"
proof (cases "skips_unknown ext")
  case True
  then have "cp_distance (closest_point ext f q) < 0" for q
    using assms(2) unfolding skips_unknown_def by blast
  then show ?thesis by (simp add: cp_info_of_def)
next
  case False
  then show ?thesis
    using assms get_geometry_type_unknown[of f] by auto
qed

lemma candidate_known_type:
  assumes "skips_unknown ext \<or> geometry_filter_type qd \<in> {point, linestring, polygon}"
    and "candidate_of ext qd tile_obj lyr f = Some c"
  shows "original_geometry_type c \<in> {point, linestring, polygon}"
proof -
  have c: "geometry_filter_type qd = all \<or> geometry_filter_type qd = get_geometry_type f"
    "0 \<le> cp_distance (cp_info_of ext qd tile_obj lyr f)"
    "original_geometry_type c = get_geometry_type f"
    using assms(2) by (simp_all add: candidate_of_Some)
  have "geometry_type f \<noteq> UNKNOWN"
    using unknown_not_candidate[OF assms(1), of f tile_obj lyr] c by auto
  then show ?thesis
    using c(3) get_geometry_type_range[of f] get_geometry_type_unknown[of f] by auto
qed

lemma entries_known_type:
  assumes "skips_unknown ext \<or> geometry_filter_type qd \<in> {point, linestring, polygon}"
    and "Execute ext qd = Inr rq" "r \<in> set rq" "distance r < DBL_MAX"
  shows "original_geometry_type r \<in> {point, linestring, polygon}"
proof -
  obtain c where c: "c \<in> set (candidates ext qd)" "r = materialize c"
    using Execute_entries[OF assms(2,3,4)] by blast
  then obtain t l g where "candidate_of ext qd t l g = Some c"
    using candidates_origin by blast
  then show ?thesis
    using candidate_known_type[OF assms(1)] c(2) by simp
qed

text \<open>
  C6: a feature of unknown geometry type is skipped and never emitted. The driver has no
  test of its own for the unknown type when no geometry filter is set: there the skip is
  the kernel's negative distance (\<open>skips_unknown\<close>).
\<close>

theorem C6_unknown_skipped:
  assumes "skips_unknown ext \<or> geometry_filter_type qd \<in> {point, linestring, polygon}"
  shows "(geometry_type f = UNKNOWN \<longrightarrow>
            feature_body ext qd tile_obj lyr results_queue f = results_queue)
       \<and> (Execute ext qd = Inr rq \<and> r \<in> set rq \<and> distance r < DBL_MAX \<longrightarrow>
            original_geometry_type r \<noteq> unknown)"
proof (intro conjI impI)
  assume "geometry_type f = UNKNOWN"
  then show "feature_body ext qd tile_obj lyr results_queue f = results_queue"
    using unknown_not_candidate[OF assms, of f tile_obj lyr]
    by (intro feature_body_skip) blast
next
  assume "Execute ext qd = Inr rq \<and> r \<in> set rq \<and> distance r < DBL_MAX"
  then show "original_geometry_type r \<noteq> unknown"
    using entries_known_type[OF assms, of rq r] by auto
qed

lemma ex_skips_unknown: "skips_unknown ex_ext"
  by (simp add: skips_unknown_def ex_ext_def ex_kernel_def del: split_paired_All)

theorem C6_unknown_skipped_witness:
  "skips_unknown ex_ext
   \<and> geometry_type (ex_feature UNKNOWN None [] 0) = UNKNOWN
   \<and> feature_body ex_ext (ex_query [] 2 True 10) (ex_tile [])
         \<lparr> name = ''poi'', extent = 4096, features = [] \<rparr>
         [ResultObject_default, ResultObject_default] (ex_feature UNKNOWN None [] 0)
       = [ResultObject_default, ResultObject_default]
   \<and> Execute ex_ext (ex_query [ex_tile [ex_feature POINT (Some 7) [(''name'', string_value ''X'')] 3,
         ex_feature POLYGON None [] 0, ex_feature UNKNOWN None [] 0, ex_feature POINT None [] 50]] 2 True 10)
       = Inr [materialize (ex_result polygon None [] 0),
              materialize (ex_result point (Some 7) [(''name'', string_value ''X'')] 3)]
   \<and> distance (materialize (ex_result polygon None [] 0)) < DBL_MAX
   \<and> original_geometry_type (materialize (ex_result polygon None [] 0)) \<noteq> unknown"
  using C6_unknown_skipped[of ex_ext "ex_query [] 2 True 10" "ex_feature UNKNOWN None [] 0" "ex_tile []"
      "\<lparr> name = ''poi'', extent = 4096, features = [] \<rparr>"
      "[ResultObject_default, ResultObject_default]"]
    C6_unknown_skipped[of ex_ext "ex_query [ex_tile [ex_feature POINT (Some 7) [(''name'', string_value ''X'')] 3,
         ex_feature POLYGON None [] 0, ex_feature UNKNOWN None [] 0, ex_feature POINT None [] 50]] 2 True 10"
      _ _ _ _ "[materialize (ex_result polygon None [] 0),
              materialize (ex_result point (Some 7) [(''name'', string_value ''X'')] 3)]"
      "materialize (ex_result polygon None [] 0)"]
    ex_skips_unknown ex_Execute_1
  by (simp add: ex_feature_def ex_result_def DBL_MAX_cmp)

lemma getGeomTypeString_known:
  "gt \<in> {point, linestring, polygon} \<Longrightarrow>
   GeomType_val gt < length GeomTypeStrings
   \<and> getGeomTypeString (GeomType_val gt) \<in> {Some ''point'', Some ''linestring'', Some ''polygon''}"
  by (auto simp: getGeomTypeString_def GeomTypeStrings_def)

text \<open>
  C10: every emitted result object has geometry type point, linestring or polygon, so the
  lookup of its name stays inside the four-element array. As for C6, with no geometry
  filter this rests on the kernel's negative distance for features of unknown type.
\<close>

theorem C10_geometry_name_in_bounds:
  assumes "skips_unknown ext \<or> geometry_filter_type qd \<in> {point, linestring, polygon}"
  shows "(Execute ext qd = Inr rq \<and> r \<in> set rq \<and> distance r < DBL_MAX \<longrightarrow>
            original_geometry_type r \<in> {point, linestring, polygon}
            \<and> GeomType_val (original_geometry_type r) < length GeomTypeStrings)
       \<and> (Worker ext qd = Inr fc \<and> Some ft \<in> set fc \<longrightarrow>
            tq_geometry ft \<in> {Some ''point'', Some ''linestring'', Some ''polygon''})"
proof (intro conjI impI)
  assume a: "Execute ext qd = Inr rq \<and> r \<in> set rq \<and> distance r < DBL_MAX"
  then show "original_geometry_type r \<in> {point, linestring, polygon}"
    using entries_known_type[OF assms, of rq r] by simp
  then show "GeomType_val (original_geometry_type r) < length GeomTypeStrings"
    using getGeomTypeString_known by blast
next
  assume "Worker ext qd = Inr fc \<and> Some ft \<in> set fc"
  then obtain rq' r' where r: "Execute ext qd = Inr rq'" "r' \<in> set rq'" "distance r' < DBL_MAX"
      "ft = feature_obj r'"
    using Worker_features by blast
  then show "tq_geometry ft \<in> {Some ''point'', Some ''linestring'', Some ''polygon''}"
    using entries_known_type[OF assms r(1,2,3)] getGeomTypeString_known by simp
qed

theorem C10_geometry_name_in_bounds_witness:
  "skips_unknown ex_ext
   \<and> Execute ex_ext (ex_query [ex_tile [ex_feature POINT (Some 7) [(''name'', string_value ''X'')] 3,
         ex_feature POLYGON None [] 0, ex_feature UNKNOWN None [] 0, ex_feature POINT None [] 50]] 2 True 10)
       = Inr [materialize (ex_result polygon None [] 0),
              materialize (ex_result point (Some 7) [(''name'', string_value ''X'')] 3)]
   \<and> distance (materialize (ex_result point (Some 7) [(''name'', string_value ''X'')] 3)) < DBL_MAX
   \<and> original_geometry_type (materialize (ex_result point (Some 7) [(''name'', string_value ''X'')] 3)) = point
   \<and> GeomType_val point < length GeomTypeStrings
   \<and> Worker ex_ext (ex_query [ex_tile [ex_feature POINT (Some 7) [(''name'', string_value ''X'')] 3,
         ex_feature POLYGON None [] 0, ex_feature UNKNOWN None [] 0, ex_feature POINT None [] 50]] 2 True 10)
       = Inr [Some (feature_obj (materialize (ex_result polygon None [] 0))),
              Some (feature_obj (materialize (ex_result point (Some 7) [(''name'', string_value ''X'')] 3)))]
   \<and> tq_geometry (feature_obj (materialize (ex_result polygon None [] 0))) = Some ''polygon''"
  using C10_geometry_name_in_bounds[of ex_ext
      "ex_query [ex_tile [ex_feature POINT (Some 7) [(''name'', string_value ''X'')] 3,
         ex_feature POLYGON None [] 0, ex_feature UNKNOWN None [] 0, ex_feature POINT None [] 50]] 2 True 10"
      "[materialize (ex_result polygon None [] 0),
              materialize (ex_result point (Some 7) [(''name'', string_value ''X'')] 3)]"
      "materialize (ex_result point (Some 7) [(''name'', string_value ''X'')] 3)"
      "[Some (feature_obj (materialize (ex_result polygon None [] 0))),
              Some (feature_obj (materialize (ex_result point (Some 7) [(''name'', string_value ''X'')] 3)))]"
      "feature_obj (materialize (ex_result polygon None [] 0))"]
    ex_skips_unknown ex_Execute_1 ex_Worker_1
  by (simp add: ex_result_def DBL_MAX_cmp getGeomTypeString_def GeomTypeStrings_def)

subsection \<open>The queue of a smaller limit is a prefix of the queue of a larger one\<close>

lemma sorted_map_butlast: "sorted (map f xs) \<Longrightarrow> sorted (map f (butlast xs))"
  by (cases xs rule: rev_cases) (auto simp: sorted_append)

lemma offer_sorted:
  assumes "sorted (map distance rq)"
  shows "offer dd rq c =
     (case (if dd then List.extract (\<lambda>r. is_dup r c) rq else None) of
        Some (pre, e, post) \<Rightarrow> if distance c \<le> distance e then place c pre @ post else rq
      | None \<Rightarrow> if distance c < distance (last rq) then place c (butlast rq) else rq)"
proof -
  have "sort_key distance (pre @ c # post) = place c pre @ post"
    if "rq = pre @ e # post" "distance c \<le> distance e" for pre e post
    using assms that by (intro sort_key_replace[of pre e post c]) simp_all
  moreover have "sort_key distance (butlast rq @ [c]) = place c (butlast rq)"
    using assms by (intro sort_key_snoc sorted_map_butlast)
  ultimately show ?thesis
    by (auto simp: offer_def extract_Some_iff split: option.splits)
qed

lemma place_append_stop:
  "\<not> distance b \<le> distance c \<Longrightarrow> place c (xs @ b # ys) = place c xs @ b # ys"
  by (induction xs) (auto simp: place_def)

lemma place_append_pass:
  "\<forall>x\<in>set xs. distance x \<le> distance c \<Longrightarrow> place c (xs @ ys) = xs @ place c ys"
  by (induction xs) (auto simp: place_def)

lemma take_place_before:
  assumes "0 < k" "k \<le> length xs" "distance c < distance (xs ! (k - 1))"
  shows "take k (place c xs) = place c (take (k - 1) xs)"
proof -
  have xs: "xs = take (k - 1) xs @ xs ! (k - 1) # drop k xs"
    using assms(1,2) by (metis Suc_diff_1 Suc_le_lessD id_take_nth_drop)
  have "place c xs = place c (take (k - 1) xs) @ xs ! (k - 1) # drop k xs"
    using assms(3) by (subst xs, subst place_append_stop) simp_all
  moreover have "length (place c (take (k - 1) xs)) = k"
    using assms(1,2) by simp
  ultimately show ?thesis by simp
qed

lemma take_place_after:
  assumes "sorted (map distance xs)" "0 < k" "k \<le> length xs" "distance (xs ! (k - 1)) \<le> distance c"
  shows "take k (place c xs) = take k xs"
proof -
  have "distance x \<le> distance c" if mem: "x \<in> set (take k xs)" for x
  proof -
    obtain i where i: "i < k" "x = xs ! i"
      using mem unfolding in_set_conv_nth by auto
    have "distance (xs ! i) \<le> distance (xs ! (k - 1))"
      using assms(1,2,3) i(1) sorted_nth_mono[of "map distance xs" i "k - 1"] by simp
    then show ?thesis using i assms(4) by simp
  qed
  then have "place c (take k xs @ drop k xs) = take k xs @ place c (drop k xs)"
    by (intro place_append_pass) simp
  then show ?thesis using assms(3) by simp
qed

lemma extract_take_before:
  assumes "List.extract P xs = Some (pre, e, post)" "length pre < k"
  shows "List.extract P (take k xs) = Some (pre, e, take (k - Suc (length pre)) post)"
  using assms by (auto simp: extract_Some_iff take_Cons')

lemma extract_take_after:
  assumes "List.extract P xs = Some (pre, e, post)" "k \<le> length pre"
  shows "List.extract P (take k xs) = None"
  using assms by (auto simp: extract_Some_iff extract_None_iff dest: in_set_takeD)

lemma extract_take_None:
  "List.extract P xs = None \<Longrightarrow> List.extract P (take k xs) = None"
  by (auto simp: extract_None_iff dest: in_set_takeD)

lemma last_take: "0 < k \<Longrightarrow> k \<le> length xs \<Longrightarrow> last (take k xs) = xs ! (k - 1)"
  by (cases k) (auto simp: take_Suc_conv_app_nth)

lemma butlast_take': "k \<le> length xs \<Longrightarrow> butlast (take k xs) = take (k - 1) xs"
  by (simp add: butlast_take)

text \<open>The part of the step without a duplicate among the first \<open>k\<close> slots.\<close>

lemma take_place_back:
  assumes "sorted (map distance xs)" "0 < k" "k \<le> length xs"
  shows "take k (place c xs) =
         (if distance c < distance (xs ! (k - 1)) then place c (take (k - 1) xs) else take k xs)"
  using take_place_before[OF assms(2,3)] take_place_after[OF assms] by auto

lemma offer_take:
  assumes s: "sorted (map distance rq)" and k: "0 < k" "k \<le> length rq"
  shows "offer dd (take k rq) c = take k (offer dd rq c)"
proof -
  have sk: "sorted (map distance (take k rq))"
    using s by (simp add: sorted_wrt_take take_map[symmetric])
  have lk: "last (take k rq) = rq ! (k - 1)" and bk: "butlast (take k rq) = take (k - 1) rq"
    using k by (simp_all add: last_take butlast_take')
  have mono: "distance (rq ! (k - 1)) \<le> distance (rq ! j)" if "k - 1 \<le> j" "j < length rq" for j
    using s that sorted_nth_mono[of "map distance rq" "k - 1" j] by simp
  let ?none = "if distance c < distance (rq ! (k - 1)) then place c (take (k - 1) rq) else take k rq"
  show ?thesis
  proof (cases "if dd then List.extract (\<lambda>r. is_dup r c) rq else None")
    case None
    then have sm: "(if dd then List.extract (\<lambda>r. is_dup r c) (take k rq) else None) = None"
      by (auto simp: extract_take_None split: if_splits)
    have small: "offer dd (take k rq) c = ?none"
      by (simp add: offer_sorted[OF sk] sm lk bk)
    show ?thesis
    proof (cases "k = length rq")
      case True
      moreover have "rq \<noteq> []" using k by auto
      ultimately show ?thesis by simp
    next
      case False
      then have kb: "k \<le> length (butlast rq)" using k by simp
      have sb: "sorted (map distance (butlast rq))"
        using s by (rule sorted_map_butlast)
      have nb: "butlast rq ! (k - Suc 0) = rq ! (k - Suc 0)"
        "take (k - Suc 0) (butlast rq) = take (k - Suc 0) rq"
        "take k (butlast rq) = take k rq"
        using kb k by (simp_all add: nth_butlast take_butlast)
      have ll: "distance (rq ! (k - 1)) \<le> distance (last rq)"
        using mono[of "length rq - 1"] k by (cases rq rule: rev_cases) (auto simp: last_conv_nth)
      show ?thesis
        using take_place_back[OF sb k(1) kb, of c] ll
        by (simp add: small offer_sorted[OF s] None nb)
    qed
  next
    case (Some t)
    then obtain pre e post where t: "t = (pre, e, post)" by (cases t) auto
    then have ex: "List.extract (\<lambda>r. is_dup r c) rq = Some (pre, e, post)" and dd: dd
      using Some by (auto split: if_splits)
    have rq: "rq = pre @ e # post" using ex by (simp add: extract_Some_iff)
    show ?thesis
    proof (cases "length pre < k")
      case True
      have big: "offer dd rq c = (if distance c \<le> distance e then place c pre @ post else rq)"
        by (simp add: offer_sorted[OF s] ex dd)
      have small: "offer dd (take k rq) c =
          (if distance c \<le> distance e then place c pre @ take (k - Suc (length pre)) post
           else take k rq)"
        by (simp add: offer_sorted[OF sk] extract_take_before[OF ex True] dd)
      show ?thesis
        using True by (simp add: big small)
    next
      case False
      then have kp: "k \<le> length pre" by simp
      have sm: "List.extract (\<lambda>r. is_dup r c) (take k rq) = None"
        using extract_take_after[OF ex kp] .
      have small: "offer dd (take k rq) c = ?none"
        by (simp add: offer_sorted[OF sk] sm lk bk dd)
      have sp: "sorted (map distance pre)"
        using s rq by (simp add: sorted_append)
      have np: "pre ! (k - Suc 0) = rq ! (k - Suc 0)" "take (k - Suc 0) pre = take (k - Suc 0) rq"
        "take k pre = take k rq"
        using kp k rq by (simp_all add: nth_append)
      have le: "distance (rq ! (k - 1)) \<le> distance e"
        using mono[of "length pre"] kp k rq by (simp add: nth_append)
      have big: "offer dd rq c = (if distance c \<le> distance e then place c pre @ post else rq)"
        by (simp add: offer_sorted[OF s] ex dd)
      show ?thesis
        using take_place_back[OF sp k(1) kp, of c] le kp
        by (simp add: small big np)
    qed
  qed
qed

lemma foldl_offer_take:
  "sorted (map distance rq) \<Longrightarrow> 0 < k \<Longrightarrow> k \<le> length rq \<Longrightarrow>
   foldl (offer dd) (take k rq) cs = take k (foldl (offer dd) rq cs)"
proof (induction cs arbitrary: rq)
  case Nil
  then show ?case by simp
next
  case (Cons c cs)
  have ne: "rq \<noteq> []" using Cons.prems by auto
  have "foldl (offer dd) (take k (offer dd rq c)) cs = take k (foldl (offer dd) (offer dd rq c) cs)"
    using Cons.prems ne by (intro Cons.IH) (simp_all add: sorted_offer)
  then show ?case using Cons.prems by (simp add: offer_take)
qed

lemma candidate_of_num_results [simp]:
  "candidate_of ext (qd\<lparr>num_results := n\<rparr>) = candidate_of ext qd"
  by (intro ext) (simp add: candidate_of_def Let_def)

lemma layer_candidates_num_results [simp]:
  "layer_candidates ext (qd\<lparr>num_results := n\<rparr>) = layer_candidates ext qd"
  by (intro ext) (simp add: layer_candidates_def)

lemma tile_candidates_num_results [simp]:
  "tile_candidates ext (qd\<lparr>num_results := n\<rparr>) = tile_candidates ext qd"
  by (intro ext) (simp add: tile_candidates_def split: tile_data.splits)

lemma candidates_num_results [simp]:
  "candidates ext (qd\<lparr>num_results := n\<rparr>) = candidates ext qd"
  by (simp add: candidates_def)

lemma run_take:
  assumes "0 < k" "k \<le> n"
  shows "run ext (qd\<lparr>num_results := k\<rparr>) = take k (run ext (qd\<lparr>num_results := n\<rparr>))"
proof -
  have "replicate k ResultObject_default = take k (replicate n ResultObject_default)"
    using assms(2) by (simp add: min_def)
  then show ?thesis
    using assms foldl_offer_take[of "replicate n ResultObject_default" k "dedupe qd" "candidates ext qd"]
    by (simp add: run_def)
qed

lemma takeWhile_take: "takeWhile P (take k xs) = take k (takeWhile P xs)"
  by (induction xs arbitrary: k) (auto simp: take_Cons')

text \<open>
  C9: with all other request fields unchanged, the features returned for a limit are a
  prefix of the features returned for any larger limit.
\<close>

theorem C9_monotone_limit:
  assumes "0 < num_results qd" and "num_results qd \<le> n" and "Worker ext qd = Inr fc"
  shows "\<exists>fc'. Worker ext (qd\<lparr>num_results := n\<rparr>) = Inr fc' \<and> prefix fc fc'"
proof -
  let ?f = "map (\<lambda>r. Some (feature_obj r))"
  have fc: "fc = ?f (emitted ext qd)" and d: "list_all decodable (tiles qd)"
    using assms(3) Worker_emitted[OF assms(1), of ext fc] by simp_all
  have n: "0 < num_results (qd\<lparr>num_results := n\<rparr>)"
    using assms(1,2) by simp
  have w: "Worker ext (qd\<lparr>num_results := n\<rparr>) = Inr (?f (emitted ext (qd\<lparr>num_results := n\<rparr>)))"
    using Worker_emitted[OF n, of ext] d by simp
  have "run ext qd = take (num_results qd) (run ext (qd\<lparr>num_results := n\<rparr>))"
    using run_take[OF assms(1,2), of ext qd] by simp
  then have "emitted ext qd = take (num_results qd) (emitted ext (qd\<lparr>num_results := n\<rparr>))"
    by (simp add: emitted_def takeWhile_take take_map)
  then have "prefix fc (?f (emitted ext (qd\<lparr>num_results := n\<rparr>)))"
    unfolding fc by (metis take_is_prefix take_map)
  then show ?thesis using w by blast
qed

lemma ex_run_3:
  "run ex_ext (ex_query [ex_tile [ex_feature POINT (Some 7) [(''name'', string_value ''X'')] 3,
       ex_feature POLYGON None [] 0, ex_feature UNKNOWN None [] 0, ex_feature POINT None [] 50]] 1 True 10)
   = [ex_result polygon None [] 0]"
  apply (simp add: run_def ex_candidates ex_candidate get_geometry_type_def)
  apply (simp add: ex_query_def offer_def extract_Cons_code extract_Nil_code is_dup_def
     ResultObject_default_def ex_result_def ex_feature_def DBL_MAX_cmp)
  done

lemma ex_Worker_3:
  "Worker ex_ext (ex_query [ex_tile [ex_feature POINT (Some 7) [(''name'', string_value ''X'')] 3,
       ex_feature POLYGON None [] 0, ex_feature UNKNOWN None [] 0, ex_feature POINT None [] 50]] 1 True 10)
   = Inr [Some (feature_obj (materialize (ex_result polygon None [] 0)))]"
  by (subst Worker_emitted) (simp_all add: emitted_def ex_run_3[unfolded One_nat_def])

lemma ex_query_num_results [simp]:
  "(ex_query ts k dd rad)\<lparr>num_results := n\<rparr> = ex_query ts n dd rad"
  by (simp add: ex_query_def)

theorem C9_monotone_limit_witness:
  "0 < num_results (ex_query [ex_tile [ex_feature POINT (Some 7) [(''name'', string_value ''X'')] 3,
       ex_feature POLYGON None [] 0, ex_feature UNKNOWN None [] 0, ex_feature POINT None [] 50]] 1 True 10)
   \<and> num_results (ex_query [ex_tile [ex_feature POINT (Some 7) [(''name'', string_value ''X'')] 3,
       ex_feature POLYGON None [] 0, ex_feature UNKNOWN None [] 0, ex_feature POINT None [] 50]] 1 True 10) \<le> 2
   \<and> Worker ex_ext (ex_query [ex_tile [ex_feature POINT (Some 7) [(''name'', string_value ''X'')] 3,
       ex_feature POLYGON None [] 0, ex_feature UNKNOWN None [] 0, ex_feature POINT None [] 50]] 1 True 10)
       = Inr [Some (feature_obj (materialize (ex_result polygon None [] 0)))]
   \<and> Worker ex_ext ((ex_query [ex_tile [ex_feature POINT (Some 7) [(''name'', string_value ''X'')] 3,
       ex_feature POLYGON None [] 0, ex_feature UNKNOWN None [] 0, ex_feature POINT None [] 50]] 1 True 10)
         \<lparr>num_results := 2\<rparr>)
       = Inr [Some (feature_obj (materialize (ex_result polygon None [] 0))),
              Some (feature_obj (materialize (ex_result point (Some 7) [(''name'', string_value ''X'')] 3)))]
   \<and> prefix [Some (feature_obj (materialize (ex_result polygon None [] 0)))]
        [Some (feature_obj (materialize (ex_result polygon None [] 0))),
         Some (feature_obj (materialize (ex_result point (Some 7) [(''name'', string_value ''X'')] 3)))]"
  using C9_monotone_limit[of "ex_query [ex_tile [ex_feature POINT (Some 7) [(''name'', string_value ''X'')] 3,
       ex_feature POLYGON None [] 0, ex_feature UNKNOWN None [] 0, ex_feature POINT None [] 50]] 1 True 10" 2
      ex_ext "[Some (feature_obj (materialize (ex_result polygon None [] 0)))]"]
    ex_Worker_1 ex_Worker_3
  by simp

subsection \<open>Without dedupe the queue is the head of the stable sort of the candidates\<close>













lemma ex_tile_candidates:
  "tile_candidates ex_ext (ex_query ts n dd rad) (ex_tile fs) =
   List.map_filter (candidate_of ex_ext (ex_query ts n dd rad) (ex_tile fs)
                      \<lparr> name = ''poi'', extent = 4096, features = fs \<rparr>) fs"
  by (simp add: tile_candidates_def layer_candidates_def ex_query_def ex_tile_def)

lemma ex_candidates_tiles:
  "candidates ex_ext (ex_query ts n dd rad) = concat (map (tile_candidates ex_ext (ex_query ts n dd rad)) ts)"
  by (simp add: candidates_def)

lemma ex_dedupe [simp]: "dedupe (ex_query ts n dd rad) = dd"
  by (simp add: ex_query_def)

lemma ex_candidates_1:
  "candidates ex_ext (ex_query [ex_tile [ex_feature POINT (Some 7) [(''name'', string_value ''X'')] 3,
       ex_feature POLYGON None [] 0, ex_feature UNKNOWN None [] 0, ex_feature POINT None [] 50]] n dd 10)
   = [ex_result point (Some 7) [(''name'', string_value ''X'')] 3, ex_result polygon None [] 0]"
  by (simp add: ex_candidates_tiles ex_tile_candidates ex_candidate get_geometry_type_def)
     (simp add: ex_feature_def)

lemma ex_offer_simps:
  "offer dd (r # rq) c =
     (case (if dd then List.extract (\<lambda>r. is_dup r c) (r # rq) else None) of
        Some (pre, e, post) \<Rightarrow>
          if distance c \<le> distance e then sort_key distance (pre @ c # post) else r # rq
      | None \<Rightarrow>
          if distance c < distance (last (r # rq)) then sort_key distance (butlast (r # rq) @ [c])
          else r # rq)"
  by (simp add: offer_def)

lemma ex_result_simps [simp]:
  "distance (ex_result gt i ps px) = \<bar>real_of_int px\<bar>"
  "layer_name (ex_result gt i ps px) = ''poi''"
  "original_geometry_type (ex_result gt i ps px) = gt"
  "has_id (ex_result gt i ps px) = (i \<noteq> None)"
  "id' (ex_result gt i ps px) = (case i of None \<Rightarrow> 0 | Some w \<Rightarrow> w)"
  "properties_vector (ex_result gt i ps px) = ps"
  "coordinates (ex_result gt i ps px) = (real_of_int px, 0)"
  "properties_vector_materialized (ex_result gt i ps px) = []"
  by (simp_all add: ex_result_def)

lemma default_simps [simp]:
  "distance ResultObject_default = DBL_MAX"
  "layer_name ResultObject_default = []"
  "original_geometry_type ResultObject_default = unknown"
  "has_id ResultObject_default = False"
  "properties_vector ResultObject_default = []"
  by (simp_all add: ResultObject_default_def)






subsection \<open>With dedupe no two live entries are duplicates\<close>

lemma is_dup_sym: "is_dup a b \<longleftrightarrow> is_dup b a"
  by (auto simp: is_dup_def)

lemma is_dup_refl [simp]: "is_dup a a"
  by (simp add: is_dup_def)

lemma place_split: "\<exists>tw dw. xs = tw @ dw \<and> place c xs = tw @ c # dw"
  unfolding place_def by (metis takeWhile_dropWhile_id)

lemma no_dups_insert:
  assumes "no_dups (tw @ dw @ post)"
    and "\<forall>x\<in>set tw \<union> set dw \<union> set post. live x \<longrightarrow> \<not> is_dup x c"
    and "live c \<longrightarrow> (\<forall>x\<in>set tw. \<not> is_dup x c)"
  shows "no_dups (tw @ c # dw @ post)"
  using assms unfolding no_dups_def
  by (auto simp: sorted_wrt_append is_dup_sym[of c])

lemma no_dups_remove: "no_dups (pre @ e # post) \<Longrightarrow> no_dups (pre @ post)"
  unfolding no_dups_def by (auto simp: sorted_wrt_append)

lemma no_dups_butlast: "no_dups rq \<Longrightarrow> no_dups (butlast rq)"
  unfolding no_dups_def by (cases rq rule: rev_cases) (auto simp: sorted_wrt_append)

lemma live_candidate:
  "set rq \<subseteq> insert ResultObject_default (set cs) \<Longrightarrow> x \<in> set rq \<Longrightarrow> live x \<Longrightarrow> x \<in> set cs"
  using live_not_default by auto

lemma no_dups_offer:
  assumes s: "sorted (map distance rq)" and n: "no_dups rq"
    and u: "set rq \<subseteq> insert ResultObject_default (set cs)" and c: "c \<in> set cs"
    and t: "dup_transitive cs"
  shows "no_dups (offer True rq c)"
proof (cases "List.extract (\<lambda>r. is_dup r c) rq")
  case None
  then have nd: "\<forall>x\<in>set rq. \<not> is_dup x c" by (simp add: extract_None_iff)
  obtain tw dw where p: "butlast rq = tw @ dw" "place c (butlast rq) = tw @ c # dw"
    using place_split by blast
  have "no_dups (tw @ c # dw @ [])"
    using no_dups_butlast[OF n] nd p(1) in_set_butlastD[of _ rq]
    by (intro no_dups_insert) (auto simp: )
  then show ?thesis
    using n by (simp add: offer_sorted[OF s] None p(2))
next
  case (Some a)
  then obtain pre e post where ex: "List.extract (\<lambda>r. is_dup r c) rq = Some (pre, e, post)"
    by (cases a) auto
  then have rq: "rq = pre @ e # post" and e: "is_dup e c" and np: "\<forall>x\<in>set pre. \<not> is_dup x c"
    by (simp_all add: extract_Some_iff)
  obtain tw dw where p: "pre = tw @ dw" "place c pre = tw @ c # dw"
    using place_split by blast
  have post: "\<not> is_dup y c" if y: "y \<in> set post" "live y" for y
  proof
    assume d: "is_dup y c"
    have "distance e \<le> distance y"
      using s rq y(1) by (auto simp: sorted_append)
    then have le: "live e" using y(2) by (simp add: live_def)
    have "e \<in> set cs" "y \<in> set cs"
      using live_candidate[OF u] rq y le by auto
    then have "is_dup e y"
      using t c e d is_dup_sym[of y c] unfolding dup_transitive_def by blast
    moreover have "\<not> is_dup e y"
      using n y unfolding no_dups_def rq by (auto simp: sorted_wrt_append)
    ultimately show False by blast
  qed
  have "no_dups (tw @ c # dw @ post)"
    using no_dups_remove[of pre e post] n rq p(1) np post
    by (intro no_dups_insert) auto
  then show ?thesis
    using n by (simp add: offer_sorted[OF s] ex p(2))
qed

lemma no_dups_foldl_offer:
  assumes "sorted (map distance rq)" "no_dups rq" "rq \<noteq> []"
    "set rq \<subseteq> insert ResultObject_default (set cs)" "set cs' \<subseteq> set cs" "dup_transitive cs"
  shows "no_dups (foldl (offer True) rq cs')"
  using assms
proof (induction cs' arbitrary: rq)
  case Nil
  then show ?case by simp
next
  case (Cons c cs')
  have c: "c \<in> set cs" using Cons.prems(5) by simp
  have "no_dups (foldl (offer True) (offer True rq c) cs')"
  proof (rule Cons.IH)
    show "sorted (map distance (offer True rq c))"
      using Cons.prems(1) by (rule sorted_offer)
    show "no_dups (offer True rq c)"
      using Cons.prems c by (intro no_dups_offer[of rq cs]) auto
    show "offer True rq c \<noteq> []"
      using Cons.prems(3) length_offer[of rq True c] by (metis length_0_conv)
    show "set (offer True rq c) \<subseteq> insert ResultObject_default (set cs)"
      using set_offer[OF Cons.prems(3), of True c] Cons.prems(4) c by auto
    show "set cs' \<subseteq> set cs" using Cons.prems(5) by simp
    show "dup_transitive cs" by fact
  qed
  then show ?case by simp
qed

lemma no_dups_run:
  assumes "dedupe qd" "0 < num_results qd" "dup_transitive (candidates ext qd)"
  shows "no_dups (run ext qd)"
proof -
  have "no_dups (replicate n ResultObject_default)" for n
    unfolding no_dups_def by (induction n) auto
  then show ?thesis
    unfolding run_def using assms
    by (simp add: no_dups_foldl_offer[of _ "candidates ext qd"] sorted_replicate)
qed

lemma is_dup_materialize [simp]: "is_dup (materialize a) (materialize b) = is_dup a b"
  by (simp add: is_dup_def)

lemma materialized_of_candidate:
  "properties_vector_materialized r = [] \<Longrightarrow>
   properties_vector_materialized (materialize r)
     = map (\<lambda>p. (fst p, convert_property_value (snd p))) (properties_vector r)"
  by (simp add: materialize_def)

text \<open>
  C8 (as amended): with dedupe on, no two emitted result objects are duplicates in the
  sense of the code (layer, geometry type, ids unless one is missing, property list as
  decoded from the tile), provided the duplicate relation is transitive on the candidates
  of the query; when moreover materialization tells their property lists apart, no two
  share layer, type, id and materialized property list.
\<close>

theorem C8_dedupe_no_duplicates:
  assumes "dedupe qd" and "Execute ext qd = Inr rq" and "dup_transitive (candidates ext qd)"
    and "i < j" and "j < length rq" and "distance (rq ! j) < DBL_MAX"
  shows "\<not> is_dup (rq ! i) (rq ! j)
       \<and> (materialize_injective (candidates ext qd) \<longrightarrow> \<not> shares (rq ! i) (rq ! j))"
proof -
  have n: "0 < num_results qd"
    using assms(2,5) length_Execute by fastforce
  have rq: "rq = map materialize (run ext qd)"
    using assms(2) Execute_run[OF n, of ext rq] by simp
  let ?a = "run ext qd ! i" and ?b = "run ext qd ! j"
  have ij: "i < length (run ext qd)" "j < length (run ext qd)"
    using assms(4,5) rq by simp_all
  have lb: "live ?b" using assms(6) rq ij by (simp add: live_def)
  have "distance ?a \<le> distance ?b"
    using state_ok_run[OF n, of ext] ij assms(4)
      sorted_nth_mono[of "map distance (run ext qd)" i j] by (simp add: state_ok_def)
  then have la: "live ?a" using lb by (simp add: live_def)
  have nd: "\<not> is_dup ?a ?b"
    using no_dups_run[OF assms(1) n assms(3)] assms(4) ij lb
    unfolding no_dups_def by (auto simp: sorted_wrt_iff_nth_less)
  have ca: "?a \<in> set (candidates ext qd)" and cb: "?b \<in> set (candidates ext qd)"
    using run_entries[OF n _ la] run_entries[OF n _ lb] ij by simp_all
  have um: "properties_vector_materialized ?a = []" "properties_vector_materialized ?b = []"
    using state_ok_run[OF n, of ext] ij by (simp_all add: state_ok_def unmaterialized_def)
  have "\<not> shares (materialize ?a) (materialize ?b)" if inj: "materialize_injective (candidates ext qd)"
  proof
    assume sh: "shares (materialize ?a) (materialize ?b)"
    then have "properties_vector ?a = properties_vector ?b"
      using inj ca cb um unfolding materialize_injective_def shares_def
      by (simp add: materialized_of_candidate)
    then have "is_dup ?a ?b"
      using sh by (simp add: shares_def is_dup_def)
    then show False using nd by blast
  qed
  then show ?thesis using nd rq ij by simp
qed

lemma ex_Execute_4:
  "Execute ex_ext (ex_query [ex_tile [ex_feature POINT (Some 1) [] 5, ex_feature POINT (Some 2) [] 4,
       ex_feature POINT None [] 3]] 2 True 10)
   = Inr [materialize (ex_result point None [] 3), materialize (ex_result point (Some 1) [] 5)]"
  apply (subst Execute_run)
   apply simp
  apply (simp add: run_def ex_candidates_tiles ex_tile_candidates ex_candidate get_geometry_type_def)
  apply (simp add: ex_feature_def replicate_2 ex_offer_simps extract_Cons_code extract_Nil_code
      is_dup_def DBL_MAX_cmp)
  done

lemma ex_Execute_5:
  "Execute ex_ext (ex_query [ex_tile [ex_feature POINT None [(''k'', int_value 1)] 3,
       ex_feature POINT None [(''k'', sint_value 1)] 4]] 2 True 10)
   = Inr [materialize (ex_result point None [(''k'', int_value 1)] 3),
          materialize (ex_result point None [(''k'', sint_value 1)] 4)]"
  apply (subst Execute_run)
   apply simp
  apply (simp add: run_def ex_candidates_tiles ex_tile_candidates ex_candidate get_geometry_type_def)
  apply (simp add: ex_feature_def replicate_2 ex_offer_simps extract_Cons_code extract_Nil_code
      is_dup_def DBL_MAX_cmp)
  done

text \<open>
  The counterexamples to C8 as stated, dedupe on, limit 2, one tile. First: three point
  features with the same (empty) properties, ids 1, 2 and none, at distances 5, 4 and 3.
  The feature without id is a duplicate of the entry with id 2, which is scanned first, and
  overwrites it; the entry with id 1 stays, and the two emitted entries share layer, type
  and properties while only one has an id. Second: two features whose property value is
  the integer 1, encoded once as int and once as sint. Their property lists differ, so
  they are not duplicates, and both materialize to the same list.
\<close>

theorem C8_dedupe_no_duplicates_counterexample:
  "dedupe (ex_query [ex_tile [ex_feature POINT (Some 1) [] 5, ex_feature POINT (Some 2) [] 4,
       ex_feature POINT None [] 3]] 2 True 10)
   \<and> Execute ex_ext (ex_query [ex_tile [ex_feature POINT (Some 1) [] 5, ex_feature POINT (Some 2) [] 4,
       ex_feature POINT None [] 3]] 2 True 10)
     = Inr [materialize (ex_result point None [] 3), materialize (ex_result point (Some 1) [] 5)]
   \<and> distance (materialize (ex_result point (Some 1) [] 5)) < DBL_MAX
   \<and> shares (materialize (ex_result point None [] 3)) (materialize (ex_result point (Some 1) [] 5))
   \<and> Execute ex_ext (ex_query [ex_tile [ex_feature POINT None [(''k'', int_value 1)] 3,
       ex_feature POINT None [(''k'', sint_value 1)] 4]] 2 True 10)
     = Inr [materialize (ex_result point None [(''k'', int_value 1)] 3),
            materialize (ex_result point None [(''k'', sint_value 1)] 4)]
   \<and> distance (materialize (ex_result point None [(''k'', sint_value 1)] 4)) < DBL_MAX
   \<and> shares (materialize (ex_result point None [(''k'', int_value 1)] 3))
        (materialize (ex_result point None [(''k'', sint_value 1)] 4))"
  by (simp add: ex_Execute_4 ex_Execute_5 shares_def DBL_MAX_cmp materialize_def)

lemma ex_Execute_1_candidates:
  "dup_transitive [ex_result point (Some 7) [(''name'', string_value ''X'')] 3, ex_result polygon None [] 0]"
  "materialize_injective [ex_result point (Some 7) [(''name'', string_value ''X'')] 3, ex_result polygon None [] 0]"
  by (simp_all add: dup_transitive_def materialize_injective_def is_dup_def)

theorem C8_dedupe_no_duplicates_witness:
  "dedupe (ex_query [ex_tile [ex_feature POINT (Some 7) [(''name'', string_value ''X'')] 3,
       ex_feature POLYGON None [] 0, ex_feature UNKNOWN None [] 0, ex_feature POINT None [] 50]] 2 True 10)
   \<and> Execute ex_ext (ex_query [ex_tile [ex_feature POINT (Some 7) [(''name'', string_value ''X'')] 3,
       ex_feature POLYGON None [] 0, ex_feature UNKNOWN None [] 0, ex_feature POINT None [] 50]] 2 True 10)
       = Inr [materialize (ex_result polygon None [] 0),
              materialize (ex_result point (Some 7) [(''name'', string_value ''X'')] 3)]
   \<and> dup_transitive (candidates ex_ext (ex_query [ex_tile [ex_feature POINT (Some 7) [(''name'', string_value ''X'')] 3,
       ex_feature POLYGON None [] 0, ex_feature UNKNOWN None [] 0, ex_feature POINT None [] 50]] 2 True 10))
   \<and> materialize_injective (candidates ex_ext (ex_query [ex_tile [ex_feature POINT (Some 7) [(''name'', string_value ''X'')] 3,
       ex_feature POLYGON None [] 0, ex_feature UNKNOWN None [] 0, ex_feature POINT None [] 50]] 2 True 10))
   \<and> (0::nat) < 1
   \<and> 1 < length [materialize (ex_result polygon None [] 0),
              materialize (ex_result point (Some 7) [(''name'', string_value ''X'')] 3)]
   \<and> distance (materialize (ex_result point (Some 7) [(''name'', string_value ''X'')] 3)) < DBL_MAX
   \<and> \<not> is_dup (materialize (ex_result polygon None [] 0))
           (materialize (ex_result point (Some 7) [(''name'', string_value ''X'')] 3))
   \<and> \<not> shares (materialize (ex_result polygon None [] 0))
           (materialize (ex_result point (Some 7) [(''name'', string_value ''X'')] 3))"
proof -
  let ?q = "ex_query [ex_tile [ex_feature POINT (Some 7) [(''name'', string_value ''X'')] 3,
       ex_feature POLYGON None [] 0, ex_feature UNKNOWN None [] 0, ex_feature POINT None [] 50]] 2 True 10"
  have t: "dup_transitive (candidates ex_ext ?q)" and m: "materialize_injective (candidates ex_ext ?q)"
    by (simp_all add: ex_candidates_1 ex_Execute_1_candidates)
  have d: "distance ([materialize (ex_result polygon None [] 0),
              materialize (ex_result point (Some 7) [(''name'', string_value ''X'')] 3)] ! 1) < DBL_MAX"
    by (simp add: DBL_MAX_cmp)
  show ?thesis
    using C8_dedupe_no_duplicates[of ?q ex_ext _ 0 1, OF _ ex_Execute_1 t _ _ d] t m ex_Execute_1
    by (simp add: DBL_MAX_cmp)
qed

subsection \<open>Offering the candidates of a tile a second time\<close>

lemma dup_trans:
  "dup_transitive us \<Longrightarrow> a \<in> set us \<Longrightarrow> b \<in> set us \<Longrightarrow> c \<in> set us \<Longrightarrow>
   is_dup a b \<Longrightarrow> is_dup b c \<Longrightarrow> is_dup a c"
  unfolding dup_transitive_def by blast

lemma sorted_last_max:
  "sorted (map distance rq) \<Longrightarrow> x \<in> set rq \<Longrightarrow> distance x \<le> distance (last rq)"
  by (cases rq rule: rev_cases) (auto simp: sorted_append)

lemma offer_cases:
  assumes "sorted (map distance rq)"
  obtains (dup_keep) pre e post where "rq = pre @ e # post" "is_dup e c"
        "\<forall>x\<in>set pre. \<not> is_dup x c" "distance e < distance c" "offer True rq c = rq"
    | (dup_replace) pre e post where "rq = pre @ e # post" "is_dup e c"
        "\<forall>x\<in>set pre. \<not> is_dup x c" "distance c \<le> distance e"
        "offer True rq c = place c pre @ post"
    | (new_keep) "\<forall>x\<in>set rq. \<not> is_dup x c" "distance (last rq) \<le> distance c"
        "offer True rq c = rq"
    | (new_insert) "\<forall>x\<in>set rq. \<not> is_dup x c" "distance c < distance (last rq)"
        "offer True rq c = place c (butlast rq)"
proof (cases "List.extract (\<lambda>r. is_dup r c) rq")
  case None
  then have nd: "\<forall>x\<in>set rq. \<not> is_dup x c" by (simp add: extract_None_iff)
  show ?thesis
  proof (cases "distance c < distance (last rq)")
    case True
    then have "offer True rq c = place c (butlast rq)"
      using None by (simp add: offer_sorted[OF assms])
    then show ?thesis using new_insert nd True by blast
  next
    case False
    then have "offer True rq c = rq"
      using None by (simp add: offer_sorted[OF assms])
    then show ?thesis using new_keep nd False by simp
  qed
next
  case (Some a)
  then obtain pre e post where ex: "List.extract (\<lambda>r. is_dup r c) rq = Some (pre, e, post)"
    by (cases a) auto
  then have f: "rq = pre @ e # post" "is_dup e c" "\<forall>x\<in>set pre. \<not> is_dup x c"
    by (simp_all add: extract_Some_iff)
  show ?thesis
  proof (cases "distance c \<le> distance e")
    case True
    then have "offer True rq c = place c pre @ post"
      using ex by (simp add: offer_sorted[OF assms])
    then show ?thesis using dup_replace f True by blast
  next
    case False
    then have "offer True rq c = rq"
      using ex by (simp add: offer_sorted[OF assms])
    then show ?thesis using dup_keep[OF f] False by simp
  qed
qed

lemma dominated_after_offer:
  assumes "sorted (map distance rq)"
  shows "dominated (offer True rq c) c"
  using assms
proof (cases rule: offer_cases[where rq = rq and c = c])
  case (dup_keep pre e post)
  then show ?thesis by (auto simp: dominated_def)
next
  case (dup_replace pre e post)
  then show ?thesis by (auto simp: dominated_def)
next
  case new_keep
  then show ?thesis by (auto simp: dominated_def)
next
  case new_insert
  then show ?thesis by (auto simp: dominated_def)
qed

lemma queue_inv_offer:
  assumes "queue_inv us rq" "c \<in> set us"
  shows "queue_inv us (offer dd rq c)"
proof -
  have ne: "rq \<noteq> []" using assms(1) by (simp add: queue_inv_def)
  have "offer dd rq c \<noteq> []"
    using length_offer[OF ne, of dd c] ne by (metis length_0_conv)
  moreover have "set (offer dd rq c) \<subseteq> set us"
    using set_offer[OF ne, of dd c] assms by (auto simp: queue_inv_def)
  ultimately show ?thesis
    using assms(1) sorted_offer[of rq dd c] by (simp add: queue_inv_def)
qed

lemma queue_inv_foldl:
  "queue_inv us rq \<Longrightarrow> set cs \<subseteq> set us \<Longrightarrow> queue_inv us (foldl (offer dd) rq cs)"
  by (induction cs arbitrary: rq) (simp_all add: queue_inv_offer)

lemma last_bounded:
  "xs \<noteq> [] \<Longrightarrow> \<forall>x\<in>set xs. distance x \<le> m \<Longrightarrow> distance (last xs) \<le> m"
  by simp

lemma place_not_Nil [simp]: "place c xs \<noteq> []"
  by (simp add: place_def)

lemma dominated_offer_mono:
  assumes q: "queue_inv us rq" and c: "c \<in> set us" and c0: "c0 \<in> set us"
    and t: "dup_transitive us" and d: "dominated rq c0"
  shows "dominated (offer True rq c) c0"
proof -
  have s: "sorted (map distance rq)" and ne: "rq \<noteq> []" and u: "set rq \<subseteq> set us"
    using q by (simp_all add: queue_inv_def)
  note mx = sorted_last_max[OF s]
  from s show ?thesis
  proof (cases rule: offer_cases[where rq = rq and c = c])
    case (dup_keep pre e post)
    then show ?thesis using d by simp
  next
    case new_keep
    then show ?thesis using d by simp
  next
    case (dup_replace pre e post)
    let ?new = "place c pre @ post"
    have e: "e \<in> set us" using u dup_replace(1) by auto
    have bound: "\<forall>x\<in>set ?new. distance x \<le> distance (last rq)"
      using mx dup_replace(1,4) by (auto intro: order_trans[of _ "distance e"])
    have last: "distance (last ?new) \<le> distance (last rq)"
      using bound by (intro last_bounded) simp_all
    have "dominated ?new c0"
    proof (cases "\<exists>e0\<in>set rq. is_dup e0 c0 \<and> distance e0 \<le> distance c0")
      case True
      then obtain e0 where e0: "e0 \<in> set rq" "is_dup e0 c0" "distance e0 \<le> distance c0"
        by blast
      show ?thesis
      proof (cases "e0 \<in> set pre \<union> set post")
        case True
        then have "e0 \<in> set ?new" by auto
        then show ?thesis using e0 unfolding dominated_def by blast
      next
        case False
        then have ee: "e0 = e" using e0(1) dup_replace(1) by auto
        have "is_dup c e" using dup_replace(2) is_dup_sym by blast
        then have "is_dup c c0" using dup_trans[OF t c e c0] e0(2) ee by blast
        moreover have "distance c \<le> distance c0" using ee e0(3) dup_replace(4) by simp
        moreover have "c \<in> set ?new" by simp
        ultimately show ?thesis unfolding dominated_def by blast
      qed
    next
      case False
      then have nd: "\<forall>x\<in>set rq. \<not> is_dup x c0" and l: "distance (last rq) \<le> distance c0"
        using d by (auto simp: dominated_def)
      have "\<not> is_dup e c0" using nd dup_replace(1) by simp
      then have "\<not> is_dup c c0" using dup_trans[OF t e c c0] dup_replace(2) by blast
      then have "\<forall>x\<in>set ?new. \<not> is_dup x c0" using nd dup_replace(1) by auto
      moreover have "distance (last ?new) \<le> distance c0" using last l by simp
      ultimately show ?thesis unfolding dominated_def by blast
    qed
    then show ?thesis using dup_replace(5) by simp
  next
    case new_insert
    let ?new = "place c (butlast rq)"
    have bl: "set (butlast rq) \<subseteq> set rq" by (auto dest: in_set_butlastD)
    have bound: "\<forall>x\<in>set ?new. distance x \<le> distance (last rq)"
      using mx new_insert(2) bl by auto
    have last: "distance (last ?new) \<le> distance (last rq)"
      using bound by (intro last_bounded) simp_all
    have rqs: "set rq = insert (last rq) (set (butlast rq))"
      using ne by (metis append_butlast_last_id list.simps(15) set_append Un_insert_right
          sup_bot.right_neutral empty_set)
    have "dominated ?new c0"
    proof (cases "is_dup c c0")
      case True
      have "\<not> is_dup e0 c0" if "e0 \<in> set rq" for e0
      proof
        assume "is_dup e0 c0"
        moreover have "is_dup c0 c" using True is_dup_sym by blast
        moreover have "e0 \<in> set us" using that u by auto
        ultimately have "is_dup e0 c" using dup_trans[OF t _ c0 c] by blast
        then show False using new_insert(1) that by blast
      qed
      then have "distance (last rq) \<le> distance c0" using d unfolding dominated_def by blast
      then have "distance c \<le> distance c0" using new_insert(2) by simp
      moreover have "c \<in> set ?new" by simp
      ultimately show ?thesis using True unfolding dominated_def by blast
    next
      case False
      have alt: "(\<exists>e0\<in>set (butlast rq). is_dup e0 c0 \<and> distance e0 \<le> distance c0)
                 \<or> distance (last rq) \<le> distance c0"
        using d rqs unfolding dominated_def by auto
      show ?thesis
      proof (cases "\<exists>e1\<in>set (butlast rq). is_dup e1 c0")
        case True
        then obtain e1 where e1: "e1 \<in> set (butlast rq)" "is_dup e1 c0" by blast
        have "\<exists>e0\<in>set (butlast rq). is_dup e0 c0 \<and> distance e0 \<le> distance c0"
        proof (cases "distance (last rq) \<le> distance c0")
          case True
          then have "distance e1 \<le> distance c0" using mx[of e1] e1(1) bl by auto
          then show ?thesis using e1 by blast
        next
          case False
          then show ?thesis using alt by blast
        qed
        then obtain e0 where "e0 \<in> set ?new" "is_dup e0 c0" "distance e0 \<le> distance c0"
          by auto
        then show ?thesis unfolding dominated_def by blast
      next
        case nd: False
        then have "distance (last rq) \<le> distance c0" using alt by blast
        then have "distance (last ?new) \<le> distance c0" using last by simp
        moreover have "\<forall>x\<in>set ?new. \<not> is_dup x c0" using nd False by auto
        ultimately show ?thesis unfolding dominated_def by blast
      qed
    qed
    then show ?thesis using new_insert(3) by simp
  qed
qed

lemma dominated_foldl:
  assumes "queue_inv us rq" "set cs \<subseteq> set us" "c0 \<in> set us" "dup_transitive us" "dominated rq c0"
  shows "dominated (foldl (offer True) rq cs) c0"
  using assms
proof (induction cs arbitrary: rq)
  case Nil
  then show ?case by simp
next
  case (Cons c cs)
  have c: "c \<in> set us" using Cons.prems(2) by simp
  show ?case
    using Cons.IH[OF queue_inv_offer[OF Cons.prems(1) c]] Cons.prems
      dominated_offer_mono[OF Cons.prems(1) c Cons.prems(3,4,5)]
    by simp
qed

lemma dominated_pass:
  assumes "queue_inv us rq" "set cs \<subseteq> set us" "dup_transitive us" "c0 \<in> set cs"
  shows "dominated (foldl (offer True) rq cs) c0"
  using assms
proof (induction cs arbitrary: rq)
  case Nil
  then show ?case by simp
next
  case (Cons c cs)
  have c: "c \<in> set us" using Cons.prems(2) by simp
  have q: "queue_inv us (offer True rq c)" by (rule queue_inv_offer[OF Cons.prems(1) c])
  have cs: "set cs \<subseteq> set us" using Cons.prems(2) by simp
  show ?case
  proof (cases "c0 \<in> set cs")
    case True
    then show ?thesis using Cons.IH[OF q cs Cons.prems(3)] by simp
  next
    case False
    then have "c0 = c" using Cons.prems(4) by simp
    moreover have "dominated (offer True rq c) c"
      using Cons.prems(1) by (intro dominated_after_offer) (simp add: queue_inv_def)
    ultimately show ?thesis
      using dominated_foldl[OF q cs c Cons.prems(3)] by simp
  qed
qed

lemma last_match_Nil [simp]: "last_match [] e = e"
  by (simp add: last_match_def)

lemma last_match_snoc:
  "last_match (pre @ [c]) e = (if is_dup c e \<and> distance c = distance e then c else last_match pre e)"
  by (simp add: last_match_def)

lemma list_all2_in2: "list_all2 P xs ys \<Longrightarrow> y \<in> set ys \<Longrightarrow> \<exists>x\<in>set xs. P x y"
  by (induction rule: list_all2_induct) auto

lemma list_all2_map_eq: "list_all2 (\<lambda>x y. f x = f y \<and> Q x y) xs ys \<Longrightarrow> map f xs = map f ys"
  by (induction rule: list_all2_induct) auto

lemma tracks_distances: "tracks pre S B \<Longrightarrow> map distance S = map distance B"
  unfolding tracks_def by (rule list_all2_map_eq)

lemma tracks_last: "tracks pre S B \<Longrightarrow> distance (last S) = distance (last B)"
  unfolding tracks_def by (induction rule: list_all2_induct) (auto dest: list_all2_lengthD)

lemma tracks_keep:
  assumes "tracks pre S B" "\<forall>e\<in>set B. live e \<longrightarrow> \<not> (is_dup c e \<and> distance c = distance e)"
  shows "tracks (pre @ [c]) S B"
  using assms unfolding tracks_def
  by (auto elim!: list.rel_mono_strong simp: last_match_snoc)

lemma tracks_no_dup:
  assumes tr: "tracks pre S B" and uB: "set B \<subseteq> set us" and uS: "set S \<subseteq> set us"
    and c: "c \<in> set us" and t: "dup_transitive us"
    and nd: "\<forall>x\<in>set S. \<not> is_dup x c" and y: "y \<in> set B"
  shows "\<not> is_dup c y"
proof
  assume a: "is_dup c y"
  obtain x where x: "x \<in> set S" "is_dup x y"
    using list_all2_in2[OF tr[unfolded tracks_def] y] by blast
  have "is_dup y c" using a is_dup_sym by blast
  then have "is_dup x c" using dup_trans[OF t _ _ c x(2)] x(1) y uB uS by blast
  then show False using nd x(1) by blast
qed

lemma tracks_split:
  assumes "tracks pre (sp @ s # sq) B"
  obtains bp e bq where "B = bp @ e # bq" "tracks pre sp bp" "tracks pre sq bq"
    "distance s = distance e" "is_dup s e" "live e \<longrightarrow> s = last_match pre e"
  using assms unfolding tracks_def
  by (auto simp: list_all2_append1 list_all2_Cons1)

lemma place_snoc_pass:
  "\<forall>x\<in>set xs. distance x \<le> distance c \<Longrightarrow> place c xs = xs @ [c]"
  using place_append_pass[of xs c "[]"] by (simp add: place_def)

lemma tracks_first_dup:
  assumes tr: "tracks pre (sp @ s # sq) B" and nB: "no_dups B" and uB: "set B \<subseteq> set us"
    and uS: "set (sp @ s # sq) \<subseteq> set us" and c: "c \<in> set us" and t: "dup_transitive us"
    and f: "is_dup s c" "\<forall>x\<in>set sp. \<not> is_dup x c"
  obtains bp e bq where "B = bp @ e # bq" "tracks pre sp bp" "tracks pre sq bq"
    "distance s = distance e" "live e \<longrightarrow> s = last_match pre e" "is_dup c e"
    "\<forall>y\<in>set bp. \<not> is_dup c y" "\<forall>y\<in>set bq. live y \<longrightarrow> \<not> is_dup c y"
proof -
  obtain bp e bq where B: "B = bp @ e # bq" "tracks pre sp bp" "tracks pre sq bq"
    "distance s = distance e" "is_dup s e" "live e \<longrightarrow> s = last_match pre e"
    using tracks_split[OF tr] by blast
  have mem: "s \<in> set us" "e \<in> set us" "set bp \<subseteq> set us" "set bq \<subseteq> set us" "set sp \<subseteq> set us"
    using uB uS B(1) by auto
  have "is_dup c s" using f(1) is_dup_sym by blast
  then have ce: "is_dup c e" using dup_trans[OF t c mem(1,2) _ B(5)] by blast
  have 1: "\<forall>y\<in>set bp. \<not> is_dup c y"
    using tracks_no_dup[OF B(2) mem(3) mem(5) c t f(2)] by blast
  have 2: "\<forall>y\<in>set bq. live y \<longrightarrow> \<not> is_dup c y"
  proof (intro ballI impI notI)
    fix y assume y: "y \<in> set bq" "live y" "is_dup c y"
    have "is_dup e c" using ce is_dup_sym by blast
    moreover have "y \<in> set us" using y(1) mem(4) by blast
    ultimately have "is_dup e y" using dup_trans[OF t mem(2) c _ _ y(3)] by blast
    moreover have "\<not> is_dup e y"
      using nB y(1,2) unfolding no_dups_def B(1) by (auto simp: sorted_wrt_append)
    ultimately show False by blast
  qed
  show ?thesis using that[OF B(1,2,3,4,6) ce 1 2] .
qed

lemma tracks_offer:
  assumes tr: "tracks pre S B"
    and sB: "sorted (map distance B)" and nB: "no_dups B" and uB: "set B \<subseteq> set us"
    and uS: "set S \<subseteq> set us" and c: "c \<in> set us" and t: "dup_transitive us"
    and d: "dominated B c"
  shows "tracks (pre @ [c]) (offer True S c) B"
proof -
  have sS: "sorted (map distance S)" using sB tracks_distances[OF tr] by simp
  note ndB = tracks_no_dup[OF tr uB uS c t]
  from sS show ?thesis
  proof (cases rule: offer_cases[where rq = S and c = c])
    case new_keep
    then show ?thesis using tracks_keep[OF tr, of c] ndB by auto
  next
    case new_insert
    have "\<forall>y\<in>set B. \<not> is_dup c y" using ndB new_insert(1) by blast
    then have "\<forall>y\<in>set B. \<not> is_dup y c" using is_dup_sym by blast
    then have "distance (last B) \<le> distance c" using d unfolding dominated_def by blast
    then show ?thesis using new_insert(2) tracks_last[OF tr] by simp
  next
    case (dup_keep sp s sq)
    obtain bp e bq where B: "B = bp @ e # bq" "tracks pre sp bp" "tracks pre sq bq"
      "distance s = distance e" "live e \<longrightarrow> s = last_match pre e" "is_dup c e"
      "\<forall>y\<in>set bp. \<not> is_dup c y" "\<forall>y\<in>set bq. live y \<longrightarrow> \<not> is_dup c y"
      using tracks_first_dup[OF tr[unfolded dup_keep(1)] nB uB uS[unfolded dup_keep(1)] c t dup_keep(2,3)]
      by blast
    have "\<forall>y\<in>set B. live y \<longrightarrow> \<not> (is_dup c y \<and> distance c = distance y)"
      using B(1,4,7,8) dup_keep(4) by auto
    then show ?thesis using tracks_keep[OF tr, of c] dup_keep(5) by simp
  next
    case (dup_replace sp s sq)
    obtain bp e bq where B: "B = bp @ e # bq" "tracks pre sp bp" "tracks pre sq bq"
      "distance s = distance e" "live e \<longrightarrow> s = last_match pre e" "is_dup c e"
      "\<forall>y\<in>set bp. \<not> is_dup c y" "\<forall>y\<in>set bq. live y \<longrightarrow> \<not> is_dup c y"
      using tracks_first_dup[OF tr[unfolded dup_replace(1)] nB uB uS[unfolded dup_replace(1)] c t dup_replace(2,3)]
      by blast
    have ec: "is_dup e c" using B(6) is_dup_sym by blast
    then obtain e0 where e0: "e0 \<in> set B" "is_dup e0 c" "distance e0 \<le> distance c"
      using d B(1) unfolding dominated_def by auto
    have "is_dup c e0" using e0(2) is_dup_sym by blast
    then have "e0 \<notin> set bp" using B(7) by blast
    then have "e0 = e \<or> e0 \<in> set bq" using e0(1) B(1) by auto
    then have "distance e \<le> distance e0" using sB B(1) by (auto simp: sorted_append)
    then have eq: "distance c = distance e" using e0(3) dup_replace(4) B(4) by simp
    have "\<forall>x\<in>set sp. distance x \<le> distance c"
      using sS dup_replace(1) eq B(4) by (auto simp: sorted_append)
    then have o: "offer True S c = sp @ c # sq"
      using dup_replace(5) by (simp add: place_snoc_pass)
    have 1: "tracks (pre @ [c]) sp bp" using tracks_keep[OF B(2), of c] B(7) by blast
    have 2: "tracks (pre @ [c]) sq bq" using tracks_keep[OF B(3), of c] B(8) by blast
    have 3: "distance c = distance e \<and> is_dup c e \<and> (live e \<longrightarrow> c = last_match (pre @ [c]) e)"
      using eq B(6) by (simp add: last_match_snoc)
    show ?thesis
      unfolding o B(1) tracks_def
      by (rule list_all2_appendI[OF 1[unfolded tracks_def] list.rel_intros(2)[OF 3 2[unfolded tracks_def]]])
  qed
qed

lemma tracks_foldl:
  assumes "tracks pre S B" "sorted (map distance B)" "no_dups B" "set B \<subseteq> set us"
    "queue_inv us S" "set cs \<subseteq> set us" "dup_transitive us" "\<forall>c\<in>set cs. dominated B c"
  shows "tracks (pre @ cs) (foldl (offer True) S cs) B"
  using assms
proof (induction cs arbitrary: pre S)
  case Nil
  then show ?case by simp
next
  case (Cons c cs)
  have c: "c \<in> set us" using Cons.prems(6) by simp
  have S: "set S \<subseteq> set us" using Cons.prems(5) by (simp add: queue_inv_def)
  have d: "dominated B c" using Cons.prems(8) by simp
  have "tracks ((pre @ [c]) @ cs) (foldl (offer True) (offer True S c) cs) B"
    using Cons.prems tracks_offer[OF Cons.prems(1,2,3,4) S c Cons.prems(7) d]
      queue_inv_offer[OF Cons.prems(5) c]
    by (intro Cons.IH) simp_all
  then show ?case by simp
qed

lemma offer_fresh:
  assumes s: "sorted (map distance S)" and n: "no_dups S" and u: "set S \<subseteq> set us"
    and c: "c \<in> set us" and t: "dup_transitive us"
    and x: "x \<in> set (offer True S c)" "live x" "x \<noteq> c"
  shows "\<not> (is_dup c x \<and> distance c = distance x)"
proof
  assume a: "is_dup c x \<and> distance c = distance x"
  then have xc: "is_dup x c" using is_dup_sym by blast
  have later: False if "S = p @ e # q" "is_dup e c" "x \<in> set q" for p e q
  proof -
    have "e \<in> set us" "x \<in> set us" using u that(1,3) by auto
    then have "is_dup e x" using dup_trans[OF t _ c _ that(2)] a by blast
    moreover have "\<not> is_dup e x"
      using n x(2) that(1,3) unfolding no_dups_def by (auto simp: sorted_wrt_append)
    ultimately show False by blast
  qed
  from s show False
  proof (cases rule: offer_cases[where rq = S and c = c])
    case (dup_keep p e q)
    then have "x \<in> set p \<or> x = e \<or> x \<in> set q" using x(1) by auto
    then show False using dup_keep(2,3,4) xc a later[OF dup_keep(1,2)] by auto
  next
    case (dup_replace p e q)
    then have "x \<in> set p \<or> x \<in> set q" using x(1,3) by auto
    then show False using dup_replace(2,3) xc later[OF dup_replace(1,2)] by auto
  next
    case new_keep
    then show False using x(1) xc by auto
  next
    case new_insert
    then have "x \<in> set (butlast S)" using x(1,3) by auto
    then show False using new_insert(1) xc by (auto dest: in_set_butlastD)
  qed
qed

lemma settled_offer:
  assumes "settled pre S" and q: "queue_inv us S" and n: "no_dups S"
    and c: "c \<in> set us" and t: "dup_transitive us"
  shows "settled (pre @ [c]) (offer True S c)"
  unfolding settled_def
proof (intro ballI impI)
  fix x assume x: "x \<in> set (offer True S c)" "live x"
  have s: "sorted (map distance S)" and ne: "S \<noteq> []" and u: "set S \<subseteq> set us"
    using q by (simp_all add: queue_inv_def)
  show "last_match (pre @ [c]) x = x"
  proof (cases "x = c")
    case True
    then show ?thesis by (simp add: last_match_snoc)
  next
    case False
    then have "x \<in> set S" using x(1) set_offer[OF ne, of True c] by auto
    then have "last_match pre x = x" using assms(1) x(2) by (simp add: settled_def)
    then show ?thesis
      using offer_fresh[OF s n u c t x False] by (auto simp: last_match_snoc)
  qed
qed

lemma no_dups_offer_inv:
  assumes "queue_inv us S" "no_dups S" "c \<in> set us" "dup_transitive us"
  shows "no_dups (offer True S c)"
  using assms no_dups_offer[of S us c] by (auto simp: queue_inv_def)

lemma settled_foldl:
  assumes "settled pre S" "queue_inv us S" "no_dups S" "set cs \<subseteq> set us" "dup_transitive us"
  shows "settled (pre @ cs) (foldl (offer True) S cs)"
  using assms
proof (induction cs arbitrary: pre S)
  case Nil
  then show ?case by simp
next
  case (Cons c cs)
  have c: "c \<in> set us" using Cons.prems(4) by simp
  have "settled ((pre @ [c]) @ cs) (foldl (offer True) (offer True S c) cs)"
    using Cons.prems settled_offer[OF Cons.prems(1,2,3) c Cons.prems(5)]
      queue_inv_offer[OF Cons.prems(2) c] no_dups_offer_inv[OF Cons.prems(2,3) c Cons.prems(5)]
    by (intro Cons.IH) simp_all
  then show ?case by simp
qed

lemma no_dups_foldl_inv:
  assumes "queue_inv us S" "no_dups S" "set cs \<subseteq> set us" "dup_transitive us"
  shows "no_dups (foldl (offer True) S cs)"
  using assms
proof (induction cs arbitrary: S)
  case Nil
  then show ?case by simp
next
  case (Cons c cs)
  have c: "c \<in> set us" using Cons.prems(3) by simp
  show ?case
    using Cons.prems Cons.IH[OF queue_inv_offer[OF Cons.prems(1) c]
        no_dups_offer_inv[OF Cons.prems(1,2) c Cons.prems(4)]]
    by simp
qed

lemma tracks_refl: "tracks [] S S"
  unfolding tracks_def by (simp add: list_all2_same)

lemma tracks_takeWhile: "tracks [] S B \<Longrightarrow> takeWhile live S = takeWhile live B"
  unfolding tracks_def by (induction rule: list_all2_induct) (auto simp: live_def)

lemma tracks_pass:
  assumes qB: "queue_inv us B" and nB: "no_dups B" and sB: "settled cs B"
    and dB: "\<forall>c\<in>set cs. dominated B c" and cs: "set cs \<subseteq> set us" and t: "dup_transitive us"
    and qS: "queue_inv us S" and tr: "tracks [] S B"
  shows "tracks [] (foldl (offer True) S cs) B"
proof -
  have "tracks ([] @ cs) (foldl (offer True) S cs) B"
    using qB by (intro tracks_foldl[OF tr _ nB _ qS cs t dB]) (simp_all add: queue_inv_def)
  then show ?thesis
    using sB unfolding tracks_def settled_def
    by (auto elim!: list.rel_mono_strong)
qed

lemma concat_replicate_Suc: "concat (replicate (Suc n) xs) = concat (replicate n xs) @ xs"
  by (induction n) simp_all

lemma tracks_passes:
  assumes q: "queue_inv us B0" and n: "no_dups B0" and cs: "set cs \<subseteq> set us"
    and t: "dup_transitive us"
  shows "tracks [] (foldl (offer True) B0 (concat (replicate (Suc N) cs))) (foldl (offer True) B0 cs)"
proof (induction N)
  case 0
  then show ?case by (simp add: tracks_refl)
next
  case (Suc N)
  let ?B = "foldl (offer True) B0 cs"
  let ?S = "foldl (offer True) B0 (concat (replicate (Suc N) cs))"
  have qB: "queue_inv us ?B" by (rule queue_inv_foldl[OF q cs])
  have nB: "no_dups ?B" by (rule no_dups_foldl_inv[OF q n cs t])
  have "settled [] B0" by (simp add: settled_def)
  then have sB: "settled cs ?B" using settled_foldl[OF _ q n cs t, of "[]"] by simp
  have dB: "\<forall>c\<in>set cs. dominated ?B c" using dominated_pass[OF q cs t] by blast
  have "set (concat (replicate (Suc N) cs)) \<subseteq> set us" using cs by auto
  then have qS: "queue_inv us ?S" by (rule queue_inv_foldl[OF q])
  have "tracks [] (foldl (offer True) ?S cs) ?B"
    by (rule tracks_pass[OF qB nB sB dB cs t qS Suc.IH])
  then show ?case by (simp only: concat_replicate_Suc[of "Suc N"] foldl_append)
qed

lemma candidate_of_tiles [simp]:
  "candidate_of ext (qd\<lparr>tiles := ts\<rparr>) = candidate_of ext qd"
  by (intro ext) (simp add: candidate_of_def Let_def)

lemma layer_candidates_tiles [simp]:
  "layer_candidates ext (qd\<lparr>tiles := ts\<rparr>) = layer_candidates ext qd"
  by (intro ext) (simp add: layer_candidates_def)

lemma tile_candidates_tiles [simp]:
  "tile_candidates ext (qd\<lparr>tiles := ts\<rparr>) = tile_candidates ext qd"
  by (intro ext) (simp add: tile_candidates_def split: tile_data.splits)

lemma candidates_replicate:
  "candidates ext (qd\<lparr>tiles := replicate N T\<rparr>) = concat (replicate N (tile_candidates ext qd T))"
  by (simp add: candidates_def)

lemma no_dups_replicate_default: "no_dups (replicate n ResultObject_default)"
  unfolding no_dups_def by (induction n) auto

lemma emitted_replicate:
  assumes "dedupe qd" "0 < num_results qd"
    and t: "dup_transitive (ResultObject_default # tile_candidates ext qd T)"
  shows "emitted ext (qd\<lparr>tiles := replicate (Suc N) T\<rparr>) = emitted ext (qd\<lparr>tiles := [T]\<rparr>)"
proof -
  let ?cs = "tile_candidates ext qd T"
  let ?us = "ResultObject_default # ?cs"
  let ?B0 = "replicate (num_results qd) ResultObject_default"
  have q: "queue_inv ?us ?B0"
    using assms(2) by (auto simp: queue_inv_def sorted_replicate)
  have cs: "set ?cs \<subseteq> set ?us" by auto
  have "takeWhile live (foldl (offer True) ?B0 (concat (replicate (Suc N) ?cs)))
      = takeWhile live (foldl (offer True) ?B0 ?cs)"
    by (rule tracks_takeWhile[OF tracks_passes[OF q no_dups_replicate_default cs t]])
  moreover have "candidates ext (qd\<lparr>tiles := [T]\<rparr>) = ?cs"
    by (simp add: candidates_def)
  ultimately show ?thesis
    using assms(1) unfolding emitted_def run_def candidates_replicate by simp
qed

lemma Worker_invalid:
  "data T = Invalid msg \<Longrightarrow> tiles qd = T # rest \<Longrightarrow> Worker ext qd = Inl msg"
  by (simp add: Worker_def Execute_def)

text \<open>
  C4 (as amended): with dedupe on, supplying the same tile N times (N at least 1), all
  other request fields unchanged, gives the same result as supplying it once, provided
  the duplicate relation is transitive on the candidates of the tile together with the
  initial entry of the queue.
\<close>

theorem C4_idempotent_tiles:
  assumes "dedupe qd" and "0 < num_results qd" and "0 < N"
    and "dup_transitive (ResultObject_default # tile_candidates ext qd T)"
  shows "Worker ext (qd\<lparr>tiles := replicate N T\<rparr>) = Worker ext (qd\<lparr>tiles := [T]\<rparr>)"
proof -
  obtain M where N: "N = Suc M" using assms(3) by (cases N) auto
  show ?thesis
  proof (cases "data T")
    case (Invalid msg)
    then show ?thesis
      using Worker_invalid[OF Invalid, of "qd\<lparr>tiles := replicate N T\<rparr>" "replicate M T" ext]
        Worker_invalid[OF Invalid, of "qd\<lparr>tiles := [T]\<rparr>" "[]" ext] N
      by simp
  next
    case (Tile lyrs)
    then have d: "decodable T" by (simp add: decodable_def)
    let ?f = "map (\<lambda>r. Some (feature_obj r))"
    have 1: "Worker ext (qd\<lparr>tiles := replicate N T\<rparr>) = Inr (?f (emitted ext (qd\<lparr>tiles := replicate N T\<rparr>)))"
      using Worker_emitted[of "qd\<lparr>tiles := replicate N T\<rparr>" ext] assms(2) d
      by (simp add: list_all_iff)
    have 2: "Worker ext (qd\<lparr>tiles := [T]\<rparr>) = Inr (?f (emitted ext (qd\<lparr>tiles := [T]\<rparr>)))"
      using Worker_emitted[of "qd\<lparr>tiles := [T]\<rparr>" ext] assms(2) d by simp
    show ?thesis
      using 1 2 N emitted_replicate[OF assms(1,2,4), of M] by simp
  qed
qed

lemma ex_query_tiles [simp]:
  "(ex_query ts n dd rad)\<lparr>tiles := ts'\<rparr> = ex_query ts' n dd rad"
  by (simp add: ex_query_def)

lemma ex_tile_candidates_1:
  "tile_candidates ex_ext (ex_query ts n dd 10)
     (ex_tile [ex_feature POINT (Some 7) [(''name'', string_value ''X'')] 3,
       ex_feature POLYGON None [] 0, ex_feature UNKNOWN None [] 0, ex_feature POINT None [] 50])
   = [ex_result point (Some 7) [(''name'', string_value ''X'')] 3, ex_result polygon None [] 0]"
  by (simp add: ex_tile_candidates ex_candidate get_geometry_type_def)
     (simp add: ex_feature_def)

lemma ex_dup_transitive_1:
  "dup_transitive [ResultObject_default, ex_result point (Some 7) [(''name'', string_value ''X'')] 3,
     ex_result polygon None [] 0]"
  by (simp add: dup_transitive_def is_dup_def)

theorem C4_idempotent_tiles_witness:
  "dedupe (ex_query [] 2 True 10) \<and> 0 < num_results (ex_query [] 2 True 10) \<and> (0::nat) < 2
   \<and> dup_transitive (ResultObject_default # tile_candidates ex_ext (ex_query [] 2 True 10)
        (ex_tile [ex_feature POINT (Some 7) [(''name'', string_value ''X'')] 3,
           ex_feature POLYGON None [] 0, ex_feature UNKNOWN None [] 0, ex_feature POINT None [] 50]))
   \<and> Worker ex_ext (ex_query (replicate 2
        (ex_tile [ex_feature POINT (Some 7) [(''name'', string_value ''X'')] 3,
           ex_feature POLYGON None [] 0, ex_feature UNKNOWN None [] 0, ex_feature POINT None [] 50]))
        2 True 10)
     = Inr [Some (feature_obj (materialize (ex_result polygon None [] 0))),
            Some (feature_obj (materialize (ex_result point (Some 7) [(''name'', string_value ''X'')] 3)))]"
proof -
  let ?T = "ex_tile [ex_feature POINT (Some 7) [(''name'', string_value ''X'')] 3,
           ex_feature POLYGON None [] 0, ex_feature UNKNOWN None [] 0, ex_feature POINT None [] 50]"
  have t: "dup_transitive (ResultObject_default # tile_candidates ex_ext (ex_query [] 2 True 10) ?T)"
    by (simp only: ex_tile_candidates_1 ex_dup_transitive_1)
  have "Worker ex_ext ((ex_query [] 2 True 10)\<lparr>tiles := replicate 2 ?T\<rparr>)
      = Worker ex_ext ((ex_query [] 2 True 10)\<lparr>tiles := [?T]\<rparr>)"
    using C4_idempotent_tiles[of "ex_query [] 2 True 10" 2 ex_ext ?T, OF _ _ _ t] by simp
  then show ?thesis
    using t ex_Worker_1 by (simp only: ex_query_tiles ex_dedupe ex_num_results) simp
qed

lemma ex_tile_candidates_6:
  "tile_candidates ex_ext (ex_query ts n dd 10)
     (ex_tile [ex_feature POINT (Some 1) [] 5, ex_feature POINT None [] 4, ex_feature POINT (Some 2) [] 3])
   = [ex_result point (Some 1) [] 5, ex_result point None [] 4, ex_result point (Some 2) [] 3]"
  by (simp add: ex_tile_candidates ex_candidate get_geometry_type_def)
     (simp add: ex_feature_def)

lemma ex_Worker_6:
  "Worker ex_ext (ex_query [ex_tile [ex_feature POINT (Some 1) [] 5, ex_feature POINT None [] 4,
       ex_feature POINT (Some 2) [] 3]] 2 True 10)
   = Inr [Some (feature_obj (materialize (ex_result point (Some 2) [] 3)))]"
  apply (subst Worker_emitted)
   apply simp
  apply (simp add: emitted_def run_def ex_candidates_tiles ex_tile_candidates_6 replicate_2)
  apply (simp add: ex_offer_simps extract_Cons_code extract_Nil_code is_dup_def DBL_MAX_cmp)
  done

lemma ex_Worker_7:
  "Worker ex_ext (ex_query [ex_tile [ex_feature POINT (Some 1) [] 5, ex_feature POINT None [] 4,
       ex_feature POINT (Some 2) [] 3],
     ex_tile [ex_feature POINT (Some 1) [] 5, ex_feature POINT None [] 4,
       ex_feature POINT (Some 2) [] 3]] 2 True 10)
   = Inr [Some (feature_obj (materialize (ex_result point (Some 2) [] 3))),
          Some (feature_obj (materialize (ex_result point (Some 1) [] 5)))]"
  apply (subst Worker_emitted)
   apply simp
  apply (simp add: emitted_def run_def ex_candidates_tiles ex_tile_candidates_6 replicate_2)
  apply (simp add: ex_offer_simps extract_Cons_code extract_Nil_code is_dup_def DBL_MAX_cmp)
  done

text \<open>
  The counterexample to C4 as stated. One tile with three point features of the same
  (empty) properties: id 1 at distance 5, no id at distance 4, id 2 at distance 3; limit 2,
  dedupe on. Supplied once, each feature overwrites its predecessor and one feature is
  returned. Supplied twice, the feature with id 1 meets in the second pass a queue whose
  only live entry has id 2, is not a duplicate of it, and enters the queue: two features
  are returned.
\<close>

theorem C4_idempotent_tiles_counterexample:
  "dedupe (ex_query [ex_tile [ex_feature POINT (Some 1) [] 5, ex_feature POINT None [] 4,
       ex_feature POINT (Some 2) [] 3]] 2 True 10)
   \<and> Worker ex_ext ((ex_query [ex_tile [ex_feature POINT (Some 1) [] 5, ex_feature POINT None [] 4,
       ex_feature POINT (Some 2) [] 3]] 2 True 10)
       \<lparr>tiles := replicate 2 (ex_tile [ex_feature POINT (Some 1) [] 5, ex_feature POINT None [] 4,
       ex_feature POINT (Some 2) [] 3])\<rparr>)
     = Inr [Some (feature_obj (materialize (ex_result point (Some 2) [] 3))),
            Some (feature_obj (materialize (ex_result point (Some 1) [] 5)))]
   \<and> Worker ex_ext (ex_query [ex_tile [ex_feature POINT (Some 1) [] 5, ex_feature POINT None [] 4,
       ex_feature POINT (Some 2) [] 3]] 2 True 10)
     = Inr [Some (feature_obj (materialize (ex_result point (Some 2) [] 3)))]"
  by (simp add: ex_Worker_6 ex_Worker_7 replicate_2)

end
